theory Spec2Isabelle
  imports Main
begin

section \<open>Python strings\<close>

text \<open>
  A Python \<open>str\<close> is modelled as a \<^typ>\<open>string\<close>: a list of 8-bit characters, read as
  the code points 0 to 255. Code points beyond 255 are outside the model.

  \<open>isspace\<close> is the whitespace test that \<open>str.strip()\<close> and the regular-expression
  escape \<open>\s\<close> share for a \<open>str\<close>: tab, line feed, vertical tab, form feed, carriage
  return (9 to 13), the four separators 28 to 31, space (32), next line (133) and
  no-break space (160).
\<close>

definition isspace :: "char \<Rightarrow> bool" where
  "isspace c =
     (let n = (of_char c :: nat)
      in (9 \<le> n \<and> n \<le> 13) \<or> (28 \<le> n \<and> n \<le> 32) \<or> n = 133 \<or> n = 160)"

definition lstrip :: "string \<Rightarrow> string" where
  "lstrip s = dropWhile isspace s"

definition rstrip :: "string \<Rightarrow> string" where
  "rstrip s = rev (dropWhile isspace (rev s))"

text \<open>\<open>s.strip()\<close>: leading and trailing whitespace removed.\<close>

definition strip :: "string \<Rightarrow> string" where
  "strip s = rstrip (lstrip s)"

text \<open>\<open>s.startswith(p)\<close>.\<close>

definition startswith :: "string \<Rightarrow> string \<Rightarrow> bool" where
  "startswith s p = (take (length p) s = p)"

text \<open>
  Letter case, on the letters A to Z and a to z. The patterns of this program contain
  ASCII letters only, and \<open>upper\<close> is only ever applied to a letter that the
  pattern \<open>[A-D]\<close> has captured, so other letters keep their code point here.
\<close>

definition lower_char :: "char \<Rightarrow> char" where
  "lower_char c =
     (case map_of (zip ''ABCDEFGHIJKLMNOPQRSTUVWXYZ'' ''abcdefghijklmnopqrstuvwxyz'') c of
        Some l \<Rightarrow> l
      | None \<Rightarrow> c)"

definition upper_char :: "char \<Rightarrow> char" where
  "upper_char c =
     (case map_of (zip ''abcdefghijklmnopqrstuvwxyz'' ''ABCDEFGHIJKLMNOPQRSTUVWXYZ'') c of
        Some u \<Rightarrow> u
      | None \<Rightarrow> c)"

text \<open>\<open>s.upper()\<close>.\<close>

definition upper :: "string \<Rightarrow> string" where
  "upper s = map upper_char s"

section \<open>The regular expressions of the \<open>re\<close> module that the program uses\<close>

text \<open>
  Both patterns are compiled with \<open>re.DOTALL | re.IGNORECASE\<close>, and they are built from
  these items only:
  \<^item> a literal character, compared without regard to case (\<open>Lit\<close>);
  \<^item> one character of a class (\<open>In\<close>): \<open>[A-D]\<close> is \<open>In (CharRange A D)\<close>;
  \<^item> \<open>\s*\<close>, the greedy repetition of a class (\<open>MaxRepeat Whitespace\<close>);
  \<^item> \<open>.*?\<close>, the lazy repetition of a class (\<open>MinRepeat AnyChar\<close>; under \<open>DOTALL\<close> the
    dot matches every character, the newline too);
  \<^item> the parentheses of a capturing group (\<open>GroupOpen\<close>, \<open>GroupClose\<close>);
  \<^item> a positive lookahead \<open>(?=a|b)\<close> with its alternatives (\<open>Assert\<close>);
  \<^item> \<open>\Z\<close>, the end of the string (\<open>AtEnd\<close>).
  A pattern is the list of its items.
\<close>

datatype cclass = Whitespace | AnyChar | CharRange char char

datatype rx =
    Lit char
  | In cclass
  | MaxRepeat cclass
  | MinRepeat cclass
  | GroupOpen
  | GroupClose
  | Assert "rx list list"
  | AtEnd

definition ci_eq :: "char \<Rightarrow> char \<Rightarrow> bool" where
  "ci_eq c d = (lower_char c = lower_char d)"

fun in_class :: "cclass \<Rightarrow> char \<Rightarrow> bool" where
  "in_class Whitespace d = isspace d"
| "in_class AnyChar d = True"
| "in_class (CharRange lo hi) d =
     (((of_char lo :: nat) \<le> of_char (lower_char d) \<and> (of_char (lower_char d) :: nat) \<le> of_char hi) \<or>
      ((of_char lo :: nat) \<le> of_char (upper_char d) \<and> (of_char (upper_char d) :: nat) \<le> of_char hi))"

text \<open>
  The result of a match attempt at the start of a string: the text consumed up to the
  first group parenthesis, the texts consumed between each parenthesis and the next (so
  the captured groups are the first, third, fifth ... of them), and the rest of the
  string after the match.
\<close>

type_synonym found = "string \<times> string list \<times> string"

fun push :: "char \<Rightarrow> found \<Rightarrow> found" where
  "push d (cur, later, rest) = (d # cur, later, rest)"

fun cut :: "found \<Rightarrow> found" where
  "cut (cur, later, rest) = ([], cur # later, rest)"

text \<open>
  The backtracking matcher. It returns the first match in the order in which \<open>re\<close>
  tries the alternatives: a greedy repetition takes one more character first and gives
  it back only when the rest of the pattern fails; a lazy repetition tries the rest of
  the pattern first and takes one more character only when that fails. A lookahead
  consumes nothing.
\<close>

fun rmatch :: "rx list \<Rightarrow> string \<Rightarrow> found option" where
  "rmatch [] s = Some ([], [], s)"
| "rmatch (Lit c # p) s =
     (case s of
        [] \<Rightarrow> None
      | d # ds \<Rightarrow> if ci_eq c d then map_option (push d) (rmatch p ds) else None)"
| "rmatch (In k # p) s =
     (case s of
        [] \<Rightarrow> None
      | d # ds \<Rightarrow> if in_class k d then map_option (push d) (rmatch p ds) else None)"
| "rmatch (MaxRepeat k # p) s =
     (case s of
        [] \<Rightarrow> rmatch p s
      | d # ds \<Rightarrow>
          if in_class k d
          then (case rmatch (MaxRepeat k # p) ds of
                  Some r \<Rightarrow> Some (push d r)
                | None \<Rightarrow> rmatch p s)
          else rmatch p s)"
| "rmatch (MinRepeat k # p) s =
     (case rmatch p s of
        Some r \<Rightarrow> Some r
      | None \<Rightarrow>
          (case s of
             [] \<Rightarrow> None
           | d # ds \<Rightarrow>
               if in_class k d then map_option (push d) (rmatch (MinRepeat k # p) ds)
               else None))"
| "rmatch (GroupOpen # p) s = map_option cut (rmatch p s)"
| "rmatch (GroupClose # p) s = map_option cut (rmatch p s)"
| "rmatch (Assert alts # p) s =
     (if list_ex (\<lambda>a. rmatch a s \<noteq> None) alts then rmatch p s else None)"
| "rmatch (AtEnd # p) s = (if s = [] then rmatch p s else None)"

text \<open>The captured groups of a match, in the order of their parentheses.\<close>

fun groups :: "string list \<Rightarrow> string list" where
  "groups (g # between # later) = g # groups later"
| "groups [g] = []"
| "groups [] = []"

text \<open>
  \<open>pattern.findall(s)\<close> for a pattern with more than one group: the tuples of groups
  of the non-overlapping matches, scanning from left to right. Where no match starts,
  the scan moves on by one character; after a match it goes on from the end of the
  match. (A match that consumes nothing also moves the scan on by one character; the
  patterns of this program begin with literal text and have no such match.)
\<close>

fun findall :: "rx list \<Rightarrow> string \<Rightarrow> string list list" where
  "findall p s =
     (case rmatch p s of
        None \<Rightarrow> (case s of [] \<Rightarrow> [] | d # ds \<Rightarrow> findall p ds)
      | Some (cur, later, rest) \<Rightarrow>
          groups later #
          (if length rest < length s then findall p rest
           else (case s of [] \<Rightarrow> [] | d # ds \<Rightarrow> findall p ds)))"

declare findall.simps [simp del]

definition lit :: "string \<Rightarrow> rx list" where
  "lit w = map Lit w"

section \<open>The flashcard and quiz extractors\<close>

text \<open>
  A function of the program returns either a \<open>str\<close> (a message) or a list of items.
\<close>

datatype 'a result = Str string | Items "'a list"

text \<open>
  \<^verbatim>\<open>Question:\s*(.*?)\nAnswer:\s*(.*?)(?=\n\nQuestion:|\Z)\<close>
\<close>

definition flashcard_pattern :: "rx list" where
  "flashcard_pattern =
     lit ''Question:'' @ [MaxRepeat Whitespace, GroupOpen, MinRepeat AnyChar, GroupClose] @
     lit ''\<newline>Answer:'' @ [MaxRepeat Whitespace, GroupOpen, MinRepeat AnyChar, GroupClose,
       Assert [lit ''\<newline>\<newline>Question:'', [AtEnd]]]"

text \<open>
  The parsing step of \<open>generate_flashcards\<close>: the pattern, \<open>findall\<close>, the stripped
  pairs, and the two messages for an empty list of pairs.
\<close>

definition extractFlashcards :: "string \<Rightarrow> (string \<times> string) result" where
  "extractFlashcards flashcards_text =
     (let matches = findall flashcard_pattern flashcards_text;
          flashcards = map (\<lambda>m. (strip (m ! 0), strip (m ! 1))) matches
      in if flashcards = []
         then (if strip flashcards_text \<noteq> []
               then Str (''Could not parse flashcards from the response. Raw response:\<newline>'' @
                         flashcards_text)
               else Str ''The model did not generate any flashcards or the response was empty.'')
         else Items flashcards)"

text \<open>
  \<^verbatim>\<open>Question:\s*(.*?)\nA\)\s*(.*?)\nB\)\s*(.*?)\nC\)\s*(.*?)\nD\)\s*(.*?)\nAnswer:\s*([A-D])\<close>
\<close>

definition quiz_pattern :: "rx list" where
  "quiz_pattern =
     lit ''Question:'' @ [MaxRepeat Whitespace, GroupOpen, MinRepeat AnyChar, GroupClose] @
     lit ''\<newline>A)'' @ [MaxRepeat Whitespace, GroupOpen, MinRepeat AnyChar, GroupClose] @
     lit ''\<newline>B)'' @ [MaxRepeat Whitespace, GroupOpen, MinRepeat AnyChar, GroupClose] @
     lit ''\<newline>C)'' @ [MaxRepeat Whitespace, GroupOpen, MinRepeat AnyChar, GroupClose] @
     lit ''\<newline>D)'' @ [MaxRepeat Whitespace, GroupOpen, MinRepeat AnyChar, GroupClose] @
     lit ''\<newline>Answer:'' @ [MaxRepeat Whitespace, GroupOpen, In (CharRange CHR ''A'' CHR ''D''),
       GroupClose]"

text \<open>
  A quiz item is the dictionary with the keys \<open>question\<close>, \<open>options\<close> and \<open>answer\<close>;
  its \<open>options\<close> dictionary is kept as the list of its (key, value) pairs in
  insertion order.
\<close>

record quiz_item =
  question :: string
  options :: "(string \<times> string) list"
  answer :: string

definition quiz_item_of :: "string list \<Rightarrow> quiz_item" where
  "quiz_item_of match =
     (let question = strip (match ! 0);
          opt_a = strip (match ! 1);
          opt_b = strip (match ! 2);
          opt_c = strip (match ! 3);
          opt_d = strip (match ! 4);
          answer = strip (match ! 5);
          options = [(''A'', opt_a), (''B'', opt_b), (''C'', opt_c), (''D'', opt_d)]
      in \<lparr>question = question, options = options, answer = upper answer\<rparr>)"

definition extractQuiz :: "string \<Rightarrow> quiz_item result" where
  "extractQuiz quiz_text =
     (let matches = findall quiz_pattern quiz_text;
          quiz_items = map quiz_item_of matches
      in if quiz_items = []
         then (if strip quiz_text \<noteq> []
               then Str (''Could not parse quiz questions from the response. Raw response:\<newline>'' @
                         quiz_text)
               else Str ''The model did not generate any quiz questions or the response was empty.'')
         else Items quiz_items)"

section \<open>The generation gateway\<close>

text \<open>
  The text-generation service is outside the program. What the \<open>try\<close> block of
  \<open>generate_with_gemini\<close> does with it (the call \<open>model.generate_content\<close> and the
  reads of the response's attributes) is summarised by one value: either something was
  raised, or the response was observed.

  A raised object is an instance of \<open>Exception\<close>, with its \<open>str()\<close>, or it is a
  \<open>BaseException\<close> that is not an \<open>Exception\<close> (\<open>KeyboardInterrupt\<close>, \<open>SystemExit\<close>),
  which the handler \<open>except Exception\<close> does not catch.
\<close>

datatype raised = Exception string | BaseOnly string

text \<open>
  The response, as far as the program reads it. The types of the service's library are
  not part of the source, so each expression of the source is a field here:
  \<^item> \<open>parts\<close>: \<open>response.parts\<close>, empty when it is falsy;
  \<^item> \<open>prompt_feedback\<close>: \<open>None\<close> when \<open>response.prompt_feedback\<close> is falsy;
  \<^item> \<open>block_reason\<close>: \<open>None\<close> when \<open>prompt_feedback.block_reason\<close> is falsy, else its \<open>.name\<close>;
  \<^item> \<open>finish_reason\<close>: the member of an enumeration that \<open>candidates[0].finish_reason\<close>
    is, with its \<open>.name\<close>;
  \<^item> \<open>response_text\<close>: \<open>response.text\<close>.
\<close>

record feedback =
  block_reason :: "string option"

datatype enum_member = Member (member_name: string)

record candidate =
  finish_reason :: enum_member

text \<open>
  The source compares the finish reason with the \<open>str\<close> \<open>'STOP'\<close>, and reads the \<open>.name\<close> of
  the same value. A value with a \<open>.name\<close> is a member of an enumeration and not a \<open>str\<close>;
  the enumerations of the service library are integer enumerations. In Python \<open>==\<close>
  between such a member and a \<open>str\<close> is \<open>False\<close> and \<open>!=\<close> is \<open>True\<close>, whatever the name of
  the member.
\<close>

definition member_ne_str :: "enum_member \<Rightarrow> string \<Rightarrow> bool" where
  "member_ne_str m s = True"

record response =
  parts :: "string list"
  prompt_feedback :: "feedback option"
  candidates :: "candidate list"
  response_text :: string

definition safety_settings :: "(string \<times> string) list list" where
  "safety_settings =
     [[(''category'', ''HARM_CATEGORY_HARASSMENT''), (''threshold'', ''BLOCK_MEDIUM_AND_ABOVE'')],
      [(''category'', ''HARM_CATEGORY_HATE_SPEECH''), (''threshold'', ''BLOCK_MEDIUM_AND_ABOVE'')],
      [(''category'', ''HARM_CATEGORY_SEXUALLY_EXPLICIT''), (''threshold'', ''BLOCK_MEDIUM_AND_ABOVE'')],
      [(''category'', ''HARM_CATEGORY_DANGEROUS_CONTENT''), (''threshold'', ''BLOCK_MEDIUM_AND_ABOVE'')]]"

type_synonym service = "string \<Rightarrow> (string \<times> string) list list \<Rightarrow> raised + response"

text \<open>
  A function that may call the service takes the list of the prompts sent so far and
  returns it with its own call added. Its value is \<open>Inr\<close> of what it returns, or \<open>Inl\<close>
  of what it lets propagate.
\<close>

type_synonym 'a io = "string list \<Rightarrow> (raised + 'a) \<times> string list"

definition generate_with_gemini :: "service \<Rightarrow> string \<Rightarrow> string io" where
  "generate_with_gemini generate_content prompt sent =
     ((case generate_content prompt safety_settings of
         Inl (Exception e) \<Rightarrow> Inr (''An error occurred during generation: '' @ e)
       | Inl (BaseOnly b) \<Rightarrow> Inl (BaseOnly b)
       | Inr response \<Rightarrow>
           Inr (if parts response = []
                then (case (case prompt_feedback response of
                              None \<Rightarrow> None
                            | Some fb \<Rightarrow> block_reason fb) of
                        Some reason_name \<Rightarrow> ''Content generation blocked. Reason: '' @ reason_name
                      | None \<Rightarrow>
                          (case candidates response of
                             c # cs \<Rightarrow>
                               if member_ne_str (finish_reason c) ''STOP''
                               then ''Content generation stopped. Reason: '' @
                                    member_name (finish_reason c)
                               else ''Error: Received an empty response from the API.''
                           | [] \<Rightarrow> ''Error: Received an empty response from the API.''))
                else response_text response)),
      sent @ [prompt])"

section \<open>The four operations\<close>

text \<open>
  The prompts are the f-strings of the source; a line break inside a literal of the
  source is a newline of the prompt.
\<close>

definition summary_prompt :: "string \<Rightarrow> string" where
  "summary_prompt text' =
     ''Please provide a concise summary of the following text, highlighting the key points and concepts suitable for studying:\<newline>\<newline>---\<newline>'' @
     text' @ ''\<newline>---''"

definition generate_summary :: "service \<Rightarrow> string \<Rightarrow> string io" where
  "generate_summary generate_content text' sent =
     (if text' = [] then (Inr ''Please provide some text to summarize.'', sent)
      else generate_with_gemini generate_content (summary_prompt text') sent)"

definition flashcards_prompt :: "string \<Rightarrow> string" where
  "flashcards_prompt text' =
     ''Generate flashcards based on the key information in the following text. Format each flashcard strictly as:\<newline>Question: [Your Question Here]\<newline>Answer: [Your Answer Here]\<newline>\<newline>Ensure there is a blank line between each flashcard.\<newline>\<newline>---\<newline>'' @
     text' @ ''\<newline>---''"

text \<open>The test of the three prefixes that mark a message of the gateway.\<close>

definition failure_prefix :: "string \<Rightarrow> bool" where
  "failure_prefix s =
     (startswith s ''An error occurred'' \<or> startswith s ''Content generation'' \<or>
      startswith s ''Error:'')"

definition generate_flashcards :: "service \<Rightarrow> string \<Rightarrow> (string \<times> string) result io" where
  "generate_flashcards generate_content text' sent =
     (if text' = []
      then (Inr (Str ''Please provide some text to generate flashcards from.''), sent)
      else (case generate_with_gemini generate_content (flashcards_prompt text') sent of
              (Inl e, sent') \<Rightarrow> (Inl e, sent')
            | (Inr flashcards_text, sent') \<Rightarrow>
                if failure_prefix flashcards_text then (Inr (Str flashcards_text), sent')
                else (Inr (extractFlashcards flashcards_text), sent')))"

definition quiz_prompt :: "string \<Rightarrow> string" where
  "quiz_prompt text' =
     ''Generate a multiple-choice quiz (around 3-5 questions) based on the key information in the following text. For each question, provide 4 options (A, B, C, D) and indicate the correct answer. Format each question strictly as:\<newline>Question: [Your Question Here]\<newline>A) [Option A]\<newline>B) [Option B]\<newline>C) [Option C]\<newline>D) [Option D]\<newline>Answer: [Correct Option Letter]\<newline>\<newline>Ensure there is a blank line between each question block.\<newline>\<newline>---\<newline>'' @
     text' @ ''\<newline>---''"

definition generate_quiz :: "service \<Rightarrow> string \<Rightarrow> quiz_item result io" where
  "generate_quiz generate_content text' sent =
     (if text' = []
      then (Inr (Str ''Please provide some text to generate a quiz from.''), sent)
      else (case generate_with_gemini generate_content (quiz_prompt text') sent of
              (Inl e, sent') \<Rightarrow> (Inl e, sent')
            | (Inr quiz_text, sent') \<Rightarrow>
                if failure_prefix quiz_text then (Inr (Str quiz_text), sent')
                else (Inr (extractQuiz quiz_text), sent')))"

definition answer_prompt :: "string \<Rightarrow> string \<Rightarrow> string" where
  "answer_prompt context' question' =
     ''Based *only* on the following text, answer the question provided. If the answer cannot be found in the text, say '' @
     [CHR 0x27] @ ''The answer is not found in the provided text.'' @ [CHR 0x27] @
     ''\<newline>\<newline>Context Text:\<newline>---\<newline>'' @ context' @ ''\<newline>---\<newline>\<newline>Question: '' @ question'"

definition generate_answer :: "service \<Rightarrow> string \<Rightarrow> string \<Rightarrow> string io" where
  "generate_answer generate_content context' question' sent =
     (if context' = [] then (Inr ''Please provide study material first.'', sent)
      else if question' = [] then (Inr ''Please enter a question.'', sent)
      else generate_with_gemini generate_content (answer_prompt context' question') sent)"

section \<open>The vocabulary of the properties\<close>

subsection \<open>Markers in a text\<close>

text \<open>
  \<open>ci_prefix w s\<close>: the string \<open>s\<close> begins with the word \<open>w\<close>, letter case aside;
  \<open>ci_contains w s\<close>: the word occurs somewhere in \<open>s\<close>.
\<close>

fun ci_prefix :: "string \<Rightarrow> string \<Rightarrow> bool" where
  "ci_prefix [] s = True"
| "ci_prefix (c # w) [] = False"
| "ci_prefix (c # w) (d # s) = (ci_eq c d \<and> ci_prefix w s)"

fun ci_contains :: "string \<Rightarrow> string \<Rightarrow> bool" where
  "ci_contains w [] = ci_prefix w []"
| "ci_contains w (d # s) = (ci_prefix w (d # s) \<or> ci_contains w s)"

text \<open>
  A word is borderless when none of its proper suffixes is also its beginning, so two
  occurrences of it in a text never overlap.
\<close>

definition borderless :: "string \<Rightarrow> bool" where
  "borderless w = list_all (\<lambda>n. \<not> ci_prefix (drop n w) w) [1..<length w]"

subsection \<open>The expected grammar of the flashcards\<close>

text \<open>
  A block is \<open>Question: q\<close>, a newline and \<open>Answer: a\<close>; the blocks of a text are
  separated by one blank line.
\<close>

definition render_block :: "string \<times> string \<Rightarrow> string" where
  "render_block b = ''Question: '' @ fst b @ ''\<newline>Answer: '' @ snd b"

fun render_flashcards :: "(string \<times> string) list \<Rightarrow> string" where
  "render_flashcards [] = []"
| "render_flashcards [b] = render_block b"
| "render_flashcards (b # b' # bs) = render_block b @ ''\<newline>\<newline>'' @ render_flashcards (b' # bs)"

text \<open>
  A block is well-formed when its question and its answer are not blank, its question
  holds no line that begins with \<open>Answer:\<close>, and its answer holds no blank line followed
  by \<open>Question:\<close> (letter case aside): then the markers of the rendered text are exactly
  the markers of its blocks. A question or an answer may run over several lines and may
  carry whitespace at either end.
\<close>

definition well_formed :: "string \<times> string \<Rightarrow> bool" where
  "well_formed b =
     (strip (fst b) \<noteq> [] \<and> strip (snd b) \<noteq> [] \<and>
      \<not> ci_contains ''\<newline>Answer:'' (fst b) \<and> \<not> ci_contains ''\<newline>\<newline>Question:'' (snd b))"

subsection \<open>The expected grammar of the quiz\<close>

text \<open>
  The letters that \<open>[A-D]\<close> accepts when case is ignored.
\<close>

definition answer_letter :: "char \<Rightarrow> bool" where
  "answer_letter d = (d \<in> set ''ABCDabcd'')"

text \<open>
  A block has a question, four options and the letter of its answer; the blocks of a
  text are separated by one blank line.
\<close>

record quiz_block =
  block_question :: string
  option_a :: string
  option_b :: string
  option_c :: string
  option_d :: string
  letter :: char

definition render_quiz_block :: "quiz_block \<Rightarrow> string" where
  "render_quiz_block b =
     ''Question: '' @ block_question b @ ''\<newline>A) '' @ option_a b @ ''\<newline>B) '' @ option_b b @
     ''\<newline>C) '' @ option_c b @ ''\<newline>D) '' @ option_d b @ ''\<newline>Answer: '' @ [letter b]"

fun render_quiz :: "quiz_block list \<Rightarrow> string" where
  "render_quiz [] = []"
| "render_quiz [b] = render_quiz_block b"
| "render_quiz (b # b' # bs) = render_quiz_block b @ ''\<newline>\<newline>'' @ render_quiz (b' # bs)"

text \<open>
  A quiz block is well-formed when its question and its options are not blank, no
  field holds a line that begins with the marker that follows the field (\<open>A)\<close> after
  the question, \<open>B)\<close> after option A, ..., \<open>Answer:\<close> after option D; letter case aside),
  and the answer is one of the letters A to D, in either case.
\<close>

definition well_formed_quiz :: "quiz_block \<Rightarrow> bool" where
  "well_formed_quiz b =
     (strip (block_question b) \<noteq> [] \<and> strip (option_a b) \<noteq> [] \<and> strip (option_b b) \<noteq> [] \<and>
      strip (option_c b) \<noteq> [] \<and> strip (option_d b) \<noteq> [] \<and>
      \<not> ci_contains ''\<newline>A)'' (block_question b) \<and> \<not> ci_contains ''\<newline>B)'' (option_a b) \<and>
      \<not> ci_contains ''\<newline>C)'' (option_b b) \<and> \<not> ci_contains ''\<newline>D)'' (option_c b) \<and>
      \<not> ci_contains ''\<newline>Answer:'' (option_d b) \<and> answer_letter (letter b))"

text \<open>
  The quiz item of a block.
\<close>

definition item_of_block :: "quiz_block \<Rightarrow> quiz_item" where
  "item_of_block b =
     \<lparr>question = strip (block_question b),
      options = [(''A'', strip (option_a b)), (''B'', strip (option_b b)),
                 (''C'', strip (option_c b)), (''D'', strip (option_d b))],
      answer = [upper_char (letter b)]\<rparr>"

text \<open>
  The invariant of a quiz item: the options are keyed by exactly A, B, C and D, the
  answer is one of these keys, and it is in upper case.
\<close>

definition quiz_item_ok :: "quiz_item \<Rightarrow> bool" where
  "quiz_item_ok item =
     (map fst (options item) = [''A'', ''B'', ''C'', ''D''] \<and>
      answer item \<in> set (map fst (options item)) \<and>
      upper (answer item) = answer item)"

subsection \<open>The outcomes of the gateway\<close>

text \<open>
  The outcomes as the specification names them, the classification of a response in
  the specification's words (content first; without content a block reason, else a stop
  for a reason that is not the normal one, whose name is \<open>STOP\<close>, else nothing), and the
  message that the program returns for each outcome.
\<close>

datatype GenerationResult =
  Success string | Blocked string | Stopped string | Empty | TransportError string

definition block_reason_of :: "response \<Rightarrow> string option" where
  "block_reason_of r = (case prompt_feedback r of None \<Rightarrow> None | Some fb \<Rightarrow> block_reason fb)"

definition abnormal_stop_of :: "response \<Rightarrow> string option" where
  "abnormal_stop_of r =
     (case candidates r of
        [] \<Rightarrow> None
      | c # cs \<Rightarrow>
          if member_name (finish_reason c) \<noteq> ''STOP'' then Some (member_name (finish_reason c))
          else None)"

definition gateway_outcome :: "response \<Rightarrow> GenerationResult" where
  "gateway_outcome r =
     (if parts r \<noteq> [] then Success (response_text r)
      else (case block_reason_of r of
              Some reason \<Rightarrow> Blocked reason
            | None \<Rightarrow> (case abnormal_stop_of r of Some reason \<Rightarrow> Stopped reason | None \<Rightarrow> Empty)))"

fun message_of :: "GenerationResult \<Rightarrow> string" where
  "message_of (Success t) = t"
| "message_of (Blocked reason) = ''Content generation blocked. Reason: '' @ reason"
| "message_of (Stopped reason) = ''Content generation stopped. Reason: '' @ reason"
| "message_of Empty = ''Error: Received an empty response from the API.''"
| "message_of (TransportError m) = ''An error occurred during generation: '' @ m"

subsection \<open>Notions of the proofs\<close>

text \<open>
  The characters of \<open>u\<close> put in front of a match, one \<open>push\<close> each.
\<close>

definition pushes :: "string \<Rightarrow> found \<Rightarrow> found" where
  "pushes u r = foldr push u r"

text \<open>
  The lookahead that ends the flashcard pattern.
\<close>

definition lookahead :: "rx list" where
  "lookahead = [Assert [lit ''\<newline>\<newline>Question:'', [AtEnd]]]"

text \<open>
  The group parentheses of a pattern, and their number.
\<close>

fun is_mark :: "rx \<Rightarrow> bool" where
  "is_mark GroupOpen = True"
| "is_mark GroupClose = True"
| "is_mark _ = False"

definition marks :: "rx list \<Rightarrow> nat" where
  "marks p = length (filter is_mark p)"

text \<open>
  \<open>reaches n q s r\<close>: the match \<open>r\<close> on \<open>s\<close> ends with a match of the pattern \<open>q\<close> on a
  suffix \<open>v\<close> of \<open>s\<close>, after \<open>n\<close> group parentheses: the chunks of \<open>r\<close> are \<open>n\<close> chunks, then
  the first chunk of the match of \<open>q\<close> with some text \<open>x\<close> in front, then the other chunks of
  the match of \<open>q\<close>.
\<close>

definition reaches :: "nat \<Rightarrow> rx list \<Rightarrow> string \<Rightarrow> found \<Rightarrow> bool" where
  "reaches n q s r =
     (\<exists>u v cur' later' pre x.
        s = u @ v \<and> rmatch q v = Some (cur', later', snd (snd r)) \<and>
        fst r # fst (snd r) = pre @ (x @ cur') # later' \<and> length pre = n)"

subsection \<open>Responses, services and blocks of the examples\<close>

text \<open>
  A response without content and without a block reason whose one candidate finished
  for the normal reason, and the service that answers with it; a service whose call
  raises, and one that answers with a given text.
\<close>

definition normal_stop :: response where
  "normal_stop =
     \<lparr>parts = [], prompt_feedback = None,
      candidates = [\<lparr>finish_reason = Member ''STOP''\<rparr>], response_text = []\<rparr>"

definition normal_stop_service :: service where
  "normal_stop_service prompt settings = Inr normal_stop"

definition failing_service :: service where
  "failing_service prompt settings = Inl (Exception ''503 Service Unavailable'')"

definition echo_service :: "string \<Rightarrow> service" where
  "echo_service reply prompt settings =
     Inr \<lparr>parts = [reply], prompt_feedback = None, candidates = [], response_text = reply\<rparr>"

text \<open>
  A quiz block.
\<close>

definition planet_block :: quiz_block where
  "planet_block =
     \<lparr>block_question = ''Largest planet?'', option_a = ''Mars'', option_b = ''Jupiter'',
      option_c = ''Venus'', option_d = ''Earth'', letter = CHR ''B''\<rparr>"

section \<open>The matcher on the shapes of text the properties speak about\<close>

subsection \<open>Equations of the matcher and of \<open>findall\<close>\<close>

declare rmatch.simps(4,5) [simp del]

lemma rmatch_MaxRepeat_Nil [simp]: "rmatch (MaxRepeat k # p) [] = rmatch p []"
  by (simp add: rmatch.simps(4))

lemma rmatch_MaxRepeat_Cons [simp]:
  "rmatch (MaxRepeat k # p) (d # ds) =
     (if in_class k d
      then (case rmatch (MaxRepeat k # p) ds of Some r \<Rightarrow> Some (push d r) | None \<Rightarrow> rmatch p (d # ds))
      else rmatch p (d # ds))"
  by (simp add: rmatch.simps(4))

lemma rmatch_MinRepeat_Nil [simp]: "rmatch (MinRepeat k # p) [] = rmatch p []"
  by (simp add: rmatch.simps(5) split: option.splits)

lemma rmatch_MinRepeat_Cons [simp]:
  "rmatch (MinRepeat k # p) (d # ds) =
     (case rmatch p (d # ds) of
        Some r \<Rightarrow> Some r
      | None \<Rightarrow> if in_class k d then map_option (push d) (rmatch (MinRepeat k # p) ds) else None)"
  by (simp add: rmatch.simps(5) split: option.splits)

lemma pushes_simps [simp]:
  "pushes [] r = r" "pushes (d # u) r = push d (pushes u r)"
  "pushes u (cur, later, rest) = (u @ cur, later, rest)"
  by (induction u) (auto simp: pushes_def)

lemma findall_Nil: "rmatch p [] = None \<Longrightarrow> findall p [] = []"
  by (simp add: findall.simps)

lemma findall_skip: "rmatch p (d # ds) = None \<Longrightarrow> findall p (d # ds) = findall p ds"
  by (simp add: findall.simps)

lemma findall_match:
  "rmatch p s = Some (cur, later, rest) \<Longrightarrow> length rest < length s \<Longrightarrow>
   findall p s = groups later # findall p rest"
  by (simp add: findall.simps[of p s])

lemma findall_no_match:
  "(\<And>u v. s = u @ v \<Longrightarrow> rmatch p v = None) \<Longrightarrow> findall p s = []"
proof (induction s)
  case Nil
  then show ?case by (simp add: findall_Nil)
next
  case (Cons d s)
  have "rmatch p (d # s) = None" by (rule Cons.prems[of "[]"]) simp
  moreover have "findall p s = []"
  proof (rule Cons.IH)
    fix u v assume "s = u @ v"
    then show "rmatch p v = None" using Cons.prems[of "d # u" v] by simp
  qed
  ultimately show ?case by (simp add: findall_skip)
qed

lemma findall_all:
  assumes "\<And>s cur later rest. rmatch p s = Some (cur, later, rest) \<Longrightarrow> P (groups later)"
  shows "\<forall>m \<in> set (findall p t). P m"
  using assms
proof (induction p t rule: findall.induct)
  case (1 p s)
  note hyp = "1.prems"
  show ?case
  proof (cases "rmatch p s")
    case None
    then show ?thesis using 1(1) hyp by (cases s) (auto simp: findall_Nil findall_skip)
  next
    case (Some r)
    obtain cur later rest where r: "r = (cur, later, rest)" by (cases r)
    have g: "P (groups later)" using hyp Some r by simp
    show ?thesis
    proof (cases "length rest < length s")
      case True
      with 1(2)[OF Some r[symmetric] refl True] hyp g Some r show ?thesis
        by (simp add: findall.simps[of p s])
    next
      case False
      have "findall p s = groups later # (case s of [] \<Rightarrow> [] | d # ds \<Rightarrow> findall p ds)"
        using Some r False by (simp add: findall.simps[of p s])
      with 1(3)[OF Some r[symmetric] refl False] hyp g show ?thesis
        by (cases s) auto
    qed
  qed
qed

lemma groups_append:
  "even (length xs) \<Longrightarrow> groups (xs @ ys) = groups xs @ groups ys"
  by (induction xs rule: groups.induct) auto

lemma length_groups: "length (groups xs) = length xs div 2"
  by (induction xs rule: groups.induct) auto

subsection \<open>Literal text, greedy whitespace and lazy groups\<close>

lemma ci_eq_refl [simp]: "ci_eq c c"
  by (simp add: ci_eq_def)

lemma ci_prefix_append:
  "ci_prefix w (zs @ t) =
     (if length w \<le> length zs then ci_prefix w zs
      else ci_prefix (take (length zs) w) zs \<and> ci_prefix (drop (length zs) w) t)"
proof (induction w zs rule: ci_prefix.induct)
  case (1 s)
  show ?case by simp
next
  case (2 c w)
  show ?case by simp
next
  case (3 c w d s)
  then show ?case by auto
qed

lemma ci_prefix_short:
  "length v \<le> length t0 \<Longrightarrow> ci_prefix v (t0 @ t) = ci_prefix v t0"
  by (simp add: ci_prefix_append)

lemma ci_prefix_self: "ci_prefix w (w @ t)"
  by (induction w) simp_all

lemma rmatch_lit:
  "rmatch (lit w @ k) s =
     (if ci_prefix w s then map_option (pushes (take (length w) s)) (rmatch k (drop (length w) s))
      else None)"
proof (induction w arbitrary: s)
  case Nil
  show ?case by (cases "rmatch k s") (simp_all add: lit_def)
next
  case (Cons c w)
  show ?case
  proof (cases s)
    case Nil
    then show ?thesis by (simp add: lit_def)
  next
    case (Cons d ds)
    have "rmatch (lit w @ k) ds =
      (if ci_prefix w ds then map_option (pushes (take (length w) ds)) (rmatch k (drop (length w) ds))
       else None)" by (rule Cons.IH)
    then show ?thesis using Cons
      by (cases "rmatch k (drop (length w) ds)") (auto simp: lit_def)
  qed
qed

lemma rmatch_lit_self: "rmatch (lit w @ k) (w @ t) = map_option (pushes w) (rmatch k t)"
  by (simp add: rmatch_lit ci_prefix_self)

lemma rmatch_lit_only: "(rmatch (lit w) s = None) = (\<not> ci_prefix w s)"
  using rmatch_lit[of w "[]" s] by auto

lemma rmatch_greedy_space:
  assumes "list_all isspace ws" and "s = [] \<or> \<not> isspace (hd s)" and "rmatch k s = Some r"
  shows "rmatch (MaxRepeat Whitespace # k) (ws @ s) = Some (pushes ws r)"
  using assms
proof (induction ws)
  case Nil
  then show ?case by (cases s) auto
next
  case (Cons d ws)
  then show ?case by simp
qed

lemma rmatch_lazy_any:
  assumes "\<And>ys zs. body = ys @ zs \<Longrightarrow> zs \<noteq> [] \<Longrightarrow> rmatch k (zs @ t) = None"
    and "rmatch k t = Some r"
  shows "rmatch (MinRepeat AnyChar # k) (body @ t) = Some (pushes body r)"
  using assms
proof (induction body)
  case Nil
  then show ?case by (cases t) simp_all
next
  case (Cons d body)
  have none: "rmatch k ((d # body) @ t) = None"
    by (rule Cons.prems(1)[of "[]"]) auto
  have ih: "rmatch (MinRepeat AnyChar # k) (body @ t) = Some (pushes body r)"
  proof (rule Cons.IH)
    fix ys zs assume "body = ys @ zs" "zs \<noteq> []"
    then show "rmatch k (zs @ t) = None"
      using Cons.prems(1)[of "d # ys" zs] by simp
  qed (rule Cons.prems(2))
  show ?case using none ih by simp
qed

subsection \<open>Occurrences of a marker\<close>

lemma ci_contains_suffix: "ci_prefix w zs \<Longrightarrow> ci_contains w (ys @ zs)"
proof (induction ys)
  case Nil
  then show ?case by (cases zs) auto
next
  case (Cons y ys)
  then show ?case by simp
qed

lemma ci_contains_append: "ci_contains w v \<Longrightarrow> ci_contains w (u @ v)"
  by (induction u) auto

lemma no_early_marker:
  assumes bl: "borderless w" and nc: "\<not> ci_contains w u"
    and u: "u = ys @ zs" and zs: "zs \<noteq> []"
  shows "\<not> ci_prefix w (zs @ w @ t)"
proof
  assume pre: "ci_prefix w (zs @ w @ t)"
  show False
  proof (cases "length w \<le> length zs")
    case True
    with pre have "ci_prefix w zs" by (simp add: ci_prefix_append)
    then have "ci_contains w u" unfolding u by (rule ci_contains_suffix)
    with nc show False by simp
  next
    case False
    with pre have "ci_prefix (drop (length zs) w) (w @ t)" by (simp add: ci_prefix_append)
    then have "ci_prefix (drop (length zs) w) w" by (simp add: ci_prefix_short)
    moreover have "length zs \<in> set [1..<length w]" using False zs by (cases zs) auto
    ultimately show False using bl by (auto simp: borderless_def list_all_iff)
  qed
qed

lemma no_marker_at_end:
  assumes nc: "\<not> ci_contains w u" and u: "u = ys @ zs"
  shows "\<not> ci_prefix w zs"
  using nc ci_contains_suffix[of w zs ys] unfolding u by blast

lemma borderless_answer: "borderless ''\<newline>Answer:''"
  by code_simp

lemma borderless_question: "borderless ''\<newline>\<newline>Question:''"
  by code_simp

lemma borderless_options:
  "borderless ''\<newline>A)''" "borderless ''\<newline>B)''" "borderless ''\<newline>C)''" "borderless ''\<newline>D)''"
  by code_simp+

subsection \<open>Stripping\<close>

lemma strip_lstrip [simp]: "strip (lstrip s) = strip s"
  by (simp add: strip_def lstrip_def)

lemma strip_nonempty_lstrip: "strip s \<noteq> [] \<Longrightarrow> lstrip s \<noteq> []"
  by (auto simp: strip_def rstrip_def)

lemma lstrip_rstrip_lstrip: "lstrip (rstrip (lstrip s)) = rstrip (lstrip s)"
proof (cases "lstrip s")
  case Nil
  have "lstrip (rstrip []) = rstrip []" by (simp add: rstrip_def lstrip_def)
  then show ?thesis by (simp only: Nil)
next
  case (Cons c t)
  have "dropWhile isspace s \<noteq> []" using Cons by (simp add: lstrip_def)
  from hd_dropWhile[OF this] have c: "\<not> isspace c" using Cons by (simp add: lstrip_def)
  have "dropWhile isspace (rev t @ [c]) = dropWhile isspace (rev t) @ [c]"
    using c by (simp add: dropWhile_append)
  then have "rstrip (c # t) = c # rev (dropWhile isspace (rev t))"
    by (simp add: rstrip_def)
  then show ?thesis using c Cons by (simp add: lstrip_def)
qed

lemma strip_strip [simp]: "strip (strip s) = strip s"
proof -
  have "rstrip (rstrip t) = rstrip t" for t
    by (simp add: rstrip_def)
  then show ?thesis by (simp add: strip_def lstrip_rstrip_lstrip)
qed

lemma strip_single: "\<not> isspace d \<Longrightarrow> strip [d] = [d]"
  by (simp add: strip_def lstrip_def rstrip_def)

subsection \<open>One field of a block: whitespace, a lazy group, and the marker after it\<close>

lemma rmatch_field:
  assumes sp: "list_all isspace sp"
    and ne: "lstrip x \<noteq> []"
    and early: "\<And>ys zs. lstrip x = ys @ zs \<Longrightarrow> zs \<noteq> [] \<Longrightarrow> rmatch k (zs @ t) = None"
    and k: "rmatch k t = Some (cur, later, rest)"
  shows "rmatch (MaxRepeat Whitespace # GroupOpen # MinRepeat AnyChar # GroupClose # k) (sp @ x @ t)
         = Some (sp @ takeWhile isspace x, lstrip x # cur # later, rest)"
proof -
  have close: "rmatch (GroupClose # k) t = Some ([], cur # later, rest)"
    using k by simp
  have lazy: "rmatch (MinRepeat AnyChar # GroupClose # k) (lstrip x @ t) = Some (lstrip x, cur # later, rest)"
    using rmatch_lazy_any[of "lstrip x" "GroupClose # k" t, OF _ close] early by simp
  have opn: "rmatch (GroupOpen # MinRepeat AnyChar # GroupClose # k) (lstrip x @ t)
             = Some ([], lstrip x # cur # later, rest)"
    using lazy by simp
  have hd: "lstrip x @ t = [] \<or> \<not> isspace (hd (lstrip x @ t))"
    using ne hd_dropWhile[of isspace x] by (simp add: lstrip_def)
  have all: "list_all isspace (sp @ takeWhile isspace x)"
    using sp by (auto simp: list_all_iff dest: set_takeWhileD)
  have "rmatch (MaxRepeat Whitespace # GroupOpen # MinRepeat AnyChar # GroupClose # k)
          ((sp @ takeWhile isspace x) @ (lstrip x @ t))
        = Some (pushes (sp @ takeWhile isspace x) ([], lstrip x # cur # later, rest))"
    by (rule rmatch_greedy_space[OF all hd opn])
  moreover have "(sp @ takeWhile isspace x) @ (lstrip x @ t) = sp @ x @ t"
    by (simp add: lstrip_def)
  ultimately show ?thesis by (simp only: pushes_simps append_Nil2)
qed

lemma rmatch_field_lit:
  assumes sp: "list_all isspace sp"
    and ne: "strip x \<noteq> []"
    and bl: "borderless w"
    and nc: "\<not> ci_contains w x"
    and k: "rmatch k t = Some (cur, later, rest)"
  shows "rmatch (MaxRepeat Whitespace # GroupOpen # MinRepeat AnyChar # GroupClose # lit w @ k)
           (sp @ x @ w @ t)
         = Some (sp @ takeWhile isspace x, lstrip x # (w @ cur) # later, rest)"
proof -
  have m: "rmatch (lit w @ k) (w @ t) = Some (w @ cur, later, rest)"
    using k by (simp add: rmatch_lit_self)
  have early: "rmatch (lit w @ k) (zs @ w @ t) = None" if "lstrip x = ys @ zs" "zs \<noteq> []" for ys zs
  proof -
    have x_eq: "x = (takeWhile isspace x @ ys) @ zs"
      using that(1) takeWhile_dropWhile_id[of isspace x] by (simp add: lstrip_def)
    have "\<not> ci_prefix w (zs @ w @ t)"
      by (rule no_early_marker[OF bl nc x_eq that(2)])
    then show ?thesis by (simp add: rmatch_lit)
  qed
  show ?thesis
    using rmatch_field[OF sp strip_nonempty_lstrip[OF ne] early m] by simp
qed

subsection \<open>Every match ends with a match of the last part of its pattern\<close>

lemma reaches_0: "rmatch q s = Some r \<Longrightarrow> reaches 0 q s r"
  unfolding reaches_def
  by (intro exI[of _ "[]"] exI[of _ s] exI[of _ "fst r"] exI[of _ "fst (snd r)"] exI[of _ "[]"])
     simp

lemma reaches_push:
  assumes "reaches n q ds r"
  shows "reaches n q (d # ds) (push d r)"
proof -
  obtain cur later rest where r: "r = (cur, later, rest)" by (cases r)
  from assms(1) obtain u v cur' later' pre x where
    s: "ds = u @ v" and m: "rmatch q v = Some (cur', later', rest)"
    and c: "cur # later = pre @ (x @ cur') # later'" and n: "length pre = n"
    unfolding reaches_def r by auto
  show ?thesis
  proof (cases pre)
    case Nil
    with c have "(d # cur) # later = [] @ ((d # x) @ cur') # later'" by simp
    with s m n Nil show ?thesis unfolding reaches_def r
      by (intro exI[of _ "d # u"] exI[of _ v] exI[of _ cur'] exI[of _ later']
                exI[of _ "[]"] exI[of _ "d # x"]) simp
  next
    case (Cons a pre')
    with c have "(d # cur) # later = ((d # a) # pre') @ (x @ cur') # later'" by simp
    with s m n Cons show ?thesis unfolding reaches_def r
      by (intro exI[of _ "d # u"] exI[of _ v] exI[of _ cur'] exI[of _ later']
                exI[of _ "(d # a) # pre'"] exI[of _ x]) simp
  qed
qed

lemma reaches_cut:
  assumes "reaches n q s r"
  shows "reaches (Suc n) q s (cut r)"
proof -
  obtain cur later rest where r: "r = (cur, later, rest)" by (cases r)
  from assms(1) obtain u v cur' later' pre x where
    s: "s = u @ v" and m: "rmatch q v = Some (cur', later', rest)"
    and c: "cur # later = pre @ (x @ cur') # later'" and n: "length pre = n"
    unfolding reaches_def r by auto
  from c have "[] # cur # later = ([] # pre) @ (x @ cur') # later'" by simp
  with s m n show ?thesis unfolding reaches_def r
    by (intro exI[of _ u] exI[of _ v] exI[of _ cur'] exI[of _ later']
              exI[of _ "[] # pre"] exI[of _ x]) simp
qed

lemma rmatch_MaxRepeat_reaches:
  assumes ih: "\<And>s r. rmatch k s = Some r \<Longrightarrow> reaches n q s r"
  shows "rmatch (MaxRepeat c # k) s = Some r \<Longrightarrow> reaches n q s r"
proof (induction s arbitrary: r)
  case Nil
  then show ?case using ih by simp
next
  case (Cons d ds)
  show ?case
  proof (cases "in_class c d \<and> rmatch (MaxRepeat c # k) ds \<noteq> None")
    case True
    then obtain r0 where r0: "rmatch (MaxRepeat c # k) ds = Some r0" by auto
    with True Cons.prems have "r = push d r0" by simp
    with Cons.IH[OF r0] show ?thesis by (simp add: reaches_push)
  next
    case False
    with Cons.prems have "rmatch k (d # ds) = Some r" by (auto split: if_splits option.splits)
    then show ?thesis by (rule ih)
  qed
qed

lemma rmatch_MinRepeat_reaches:
  assumes ih: "\<And>s r. rmatch k s = Some r \<Longrightarrow> reaches n q s r"
  shows "rmatch (MinRepeat c # k) s = Some r \<Longrightarrow> reaches n q s r"
proof (induction s arbitrary: r)
  case Nil
  then show ?case using ih by simp
next
  case (Cons d ds)
  show ?case
  proof (cases "rmatch k (d # ds)")
    case (Some r1)
    with Cons.prems have "r1 = r" by simp
    with Some ih show ?thesis by simp
  next
    case None
    with Cons.prems obtain r0 where r0: "rmatch (MinRepeat c # k) ds = Some r0" and r: "r = push d r0"
      by (auto split: if_splits)
    with Cons.IH[OF r0] show ?thesis by (simp add: reaches_push)
  qed
qed

lemma rmatch_append_reaches:
  "rmatch (p @ q) s = Some r \<Longrightarrow> reaches (marks p) q s r"
proof (induction p arbitrary: s r)
  case Nil
  then show ?case by (simp add: marks_def reaches_0)
next
  case (Cons i p)
  note ih = Cons.IH
  show ?case
  proof (cases i)
    case (Lit c)
    with Cons.prems obtain d ds r0 where "s = d # ds" "rmatch (p @ q) ds = Some r0" "r = push d r0"
      by (cases s) (auto split: if_splits)
    with ih[of ds r0] show ?thesis by (simp add: Lit marks_def reaches_push)
  next
    case (In c)
    with Cons.prems obtain d ds r0 where "s = d # ds" "rmatch (p @ q) ds = Some r0" "r = push d r0"
      by (cases s) (auto split: if_splits)
    with ih[of ds r0] show ?thesis by (simp add: In marks_def reaches_push)
  next
    case (MaxRepeat c)
    have "reaches (marks p) q s r"
      by (rule rmatch_MaxRepeat_reaches[of "p @ q" "marks p" q c s r])
         (use ih Cons.prems MaxRepeat in auto)
    then show ?thesis by (simp add: MaxRepeat marks_def)
  next
    case (MinRepeat c)
    have "reaches (marks p) q s r"
      by (rule rmatch_MinRepeat_reaches[of "p @ q" "marks p" q c s r])
         (use ih Cons.prems MinRepeat in auto)
    then show ?thesis by (simp add: MinRepeat marks_def)
  next
    case GroupOpen
    with Cons.prems obtain r0 where "rmatch (p @ q) s = Some r0" "r = cut r0" by auto
    with ih[of s r0] show ?thesis by (simp add: GroupOpen marks_def reaches_cut)
  next
    case GroupClose
    with Cons.prems obtain r0 where "rmatch (p @ q) s = Some r0" "r = cut r0" by auto
    with ih[of s r0] show ?thesis by (simp add: GroupClose marks_def reaches_cut)
  next
    case (Assert alts)
    with Cons.prems have "rmatch (p @ q) s = Some r" by (auto split: if_splits)
    with ih[of s r] show ?thesis by (simp add: Assert marks_def)
  next
    case AtEnd
    with Cons.prems have "rmatch (p @ q) s = Some r" by (auto split: if_splits)
    with ih[of s r] show ?thesis by (simp add: AtEnd marks_def)
  qed
qed

lemma rmatch_chunks:
  assumes "rmatch p s = Some (cur, later, rest)"
  shows "length later = marks p \<and> (\<exists>u. s = u @ rest)"
proof -
  from assms have "rmatch (p @ []) s = Some (cur, later, rest)" by simp
  from rmatch_append_reaches[OF this] obtain u v cur' later' pre x where
    s: "s = u @ v" and v: "rmatch [] v = Some (cur', later', rest)"
    and c: "cur # later = pre @ (x @ cur') # later'" and n: "length pre = marks p"
    unfolding reaches_def by auto
  from v have "v = rest" "later' = []" by simp_all
  with s c n show ?thesis
    by (metis length_Cons length_append_singleton nat.inject)
qed

subsection \<open>No match is empty, and every tuple of \<open>findall\<close> has the groups of its pattern\<close>

text \<open>
  So the branch of \<open>findall\<close> for a match that consumes nothing is never taken on the two
  patterns, and the indices in \<open>extractFlashcards\<close> and \<open>quiz_item_of\<close> are in range: the
  unpacking of a tuple in the source cannot fail.
\<close>

lemma match_is_not_empty:
  assumes "rmatch (Lit c # p) s = Some (cur, later, rest)"
  shows "length rest < length s"
proof -
  from assms obtain d ds r0 where s: "s = d # ds" and r0: "rmatch p ds = Some r0"
    and r: "(cur, later, rest) = push d r0"
    by (cases s) (auto split: if_splits)
  obtain cur0 later0 where "r0 = (cur0, later0, rest)" using r by (cases r0) auto
  with r0 rmatch_chunks[of p ds cur0 later0 rest] obtain u where "ds = u @ rest" by auto
  with s show ?thesis by simp
qed

lemma patterns_begin_with_text:
  "\<exists>p. flashcard_pattern = Lit CHR ''Q'' # p" "\<exists>p. quiz_pattern = Lit CHR ''Q'' # p"
  by (simp_all add: flashcard_pattern_def quiz_pattern_def lit_def)

lemma code_A_to_D:
  assumes "(65::nat) \<le> of_char x" and "of_char x \<le> (68::nat)"
  shows "x \<in> set ''ABCD''"
proof -
  from assms have "of_char x = (65::nat) \<or> of_char x = (66::nat) \<or> of_char x = (67::nat) \<or> of_char x = (68::nat)"
    by arith
  moreover have "of_char CHR ''A'' = (65::nat)" "of_char CHR ''B'' = (66::nat)"
    "of_char CHR ''C'' = (67::nat)" "of_char CHR ''D'' = (68::nat)" by simp_all
  ultimately have "(of_char x :: nat) = of_char CHR ''A'' \<or> (of_char x :: nat) = of_char CHR ''B'' \<or>
    (of_char x :: nat) = of_char CHR ''C'' \<or> (of_char x :: nat) = of_char CHR ''D''" by simp
  then show ?thesis by (simp only: of_char_eq_iff) simp
qed

lemma lower_char_not_upper: "lower_char d \<notin> set ''ABCD''"
  by (auto simp: lower_char_def split: if_splits)

lemma upper_char_AD: "upper_char d \<in> set ''ABCD'' \<Longrightarrow> answer_letter d"
  by (auto simp: upper_char_def answer_letter_def split: if_splits)

lemma in_class_AD: "in_class (CharRange CHR ''A'' CHR ''D'') d \<Longrightarrow> answer_letter d"
  using code_A_to_D[of "lower_char d"] code_A_to_D[of "upper_char d"]
    lower_char_not_upper[of d] upper_char_AD[of d]
  by auto

lemma answer_letter_not_space: "answer_letter d \<Longrightarrow> \<not> isspace d"
  by (auto simp: answer_letter_def isspace_def)

lemma upper_answer_letter:
  assumes "answer_letter d"
  shows "upper [d] \<in> {''A'', ''B'', ''C'', ''D''} \<and> upper (upper [d]) = upper [d]"
proof -
  from assms consider "d = CHR ''A''" | "d = CHR ''B''" | "d = CHR ''C''" | "d = CHR ''D''"
    | "d = CHR ''a''" | "d = CHR ''b''" | "d = CHR ''c''" | "d = CHR ''d''"
    by (auto simp: answer_letter_def)
  then show ?thesis
    by cases (simp_all add: upper_def upper_char_def)
qed

lemma quiz_pattern_split:
  "quiz_pattern =
     (lit ''Question:'' @ [MaxRepeat Whitespace, GroupOpen, MinRepeat AnyChar, GroupClose] @
      lit ''\<newline>A)'' @ [MaxRepeat Whitespace, GroupOpen, MinRepeat AnyChar, GroupClose] @
      lit ''\<newline>B)'' @ [MaxRepeat Whitespace, GroupOpen, MinRepeat AnyChar, GroupClose] @
      lit ''\<newline>C)'' @ [MaxRepeat Whitespace, GroupOpen, MinRepeat AnyChar, GroupClose] @
      lit ''\<newline>D)'' @ [MaxRepeat Whitespace, GroupOpen, MinRepeat AnyChar, GroupClose] @
      lit ''\<newline>Answer:'' @ [MaxRepeat Whitespace]) @
     [GroupOpen, In (CharRange CHR ''A'' CHR ''D''), GroupClose]"
  by (simp add: quiz_pattern_def)

lemma quiz_match_groups:
  assumes "rmatch quiz_pattern s = Some (cur, later, rest)"
  shows "length (groups later) = 6 \<and> (\<exists>d. groups later ! 5 = [d] \<and> answer_letter d)"
proof -
  let ?p = "lit ''Question:'' @ [MaxRepeat Whitespace, GroupOpen, MinRepeat AnyChar, GroupClose] @
      lit ''\<newline>A)'' @ [MaxRepeat Whitespace, GroupOpen, MinRepeat AnyChar, GroupClose] @
      lit ''\<newline>B)'' @ [MaxRepeat Whitespace, GroupOpen, MinRepeat AnyChar, GroupClose] @
      lit ''\<newline>C)'' @ [MaxRepeat Whitespace, GroupOpen, MinRepeat AnyChar, GroupClose] @
      lit ''\<newline>D)'' @ [MaxRepeat Whitespace, GroupOpen, MinRepeat AnyChar, GroupClose] @
      lit ''\<newline>Answer:'' @ [MaxRepeat Whitespace]"
  let ?q = "[GroupOpen, In (CharRange CHR ''A'' CHR ''D''), GroupClose]"
  have marks: "marks ?p = 10" by (simp add: marks_def lit_def)
  from assms have "reaches (marks ?p) ?q s (cur, later, rest)"
    unfolding quiz_pattern_split by (rule rmatch_append_reaches)
  then obtain u v cur' later' pre x where
    v: "rmatch ?q v = Some (cur', later', rest)"
    and c: "cur # later = pre @ (x @ cur') # later'" and n: "length pre = 10"
    unfolding reaches_def marks by auto
  from v obtain d where d: "in_class (CharRange CHR ''A'' CHR ''D'') d"
    and cur': "cur' = []" and later': "later' = [[d], []]"
    by (cases v) (auto split: if_splits simp del: in_class.simps)
  from n obtain c0 pre' where pre: "pre = c0 # pre'" and n': "length pre' = 9"
    by (cases pre) auto
  from c have later: "later = (pre' @ [x]) @ [[d], []]"
    by (simp add: pre cur' later')
  have ev: "even (length (pre' @ [x]))" using n' by simp
  have g: "groups later = groups (pre' @ [x]) @ [[d]]"
    unfolding later groups_append[OF ev] by simp
  have l: "length (groups (pre' @ [x])) = 5" using n' by (simp add: length_groups)
  from g l have "length (groups later) = 6" by simp
  moreover from g l have "groups later ! 5 = [d]" by (simp add: nth_append)
  ultimately show ?thesis using in_class_AD[OF d] by blast
qed

lemma flashcard_tuples:
  "\<forall>m \<in> set (findall flashcard_pattern t). length m = 2"
proof (rule findall_all)
  fix s cur later rest
  assume "rmatch flashcard_pattern s = Some (cur, later, rest)"
  then have "length later = marks flashcard_pattern" by (simp add: rmatch_chunks)
  also have "\<dots> = 4" by (simp add: flashcard_pattern_def marks_def lit_def)
  finally show "length (groups later) = 2" by (simp add: length_groups)
qed

lemma quiz_tuples:
  "\<forall>m \<in> set (findall quiz_pattern t). length m = 6"
  by (rule findall_all) (simp add: quiz_match_groups)

subsection \<open>The flashcard pattern on a rendered text\<close>

lemma rmatch_lookahead:
  "rmatch lookahead s = (if ci_prefix ''\<newline>\<newline>Question:'' s \<or> s = [] then Some ([], [], s) else None)"
  unfolding lookahead_def by (simp add: rmatch_lit_only del: ci_prefix.simps not_None_eq)

lemma flashcard_block_match:
  assumes wf: "well_formed (q, a)"
    and tail: "tail = [] \<or> (\<exists>t. tail = ''\<newline>\<newline>Question:'' @ t)"
  shows "rmatch flashcard_pattern (''Question: '' @ q @ ''\<newline>Answer: '' @ a @ tail)
         = Some (''Question: '' @ takeWhile isspace q,
                 [lstrip q, ''\<newline>Answer: '' @ takeWhile isspace a, lstrip a, []], tail)"
proof -
  let ?field = "\<lambda>k. MaxRepeat Whitespace # GroupOpen # MinRepeat AnyChar # GroupClose # k"
  from wf have q: "lstrip q \<noteq> []" and a: "lstrip a \<noteq> []"
    and ncq: "\<not> ci_contains ''\<newline>Answer:'' q" and nca: "\<not> ci_contains ''\<newline>\<newline>Question:'' a"
    by (auto simp: well_formed_def strip_nonempty_lstrip)
  have sp: "list_all isspace '' ''" by (simp add: isspace_def)
  have la: "rmatch lookahead tail = Some ([], [], tail)"
    using tail by (auto simp: rmatch_lookahead)
  have early_a: "rmatch lookahead (zs @ tail) = None" if "lstrip a = ys @ zs" "zs \<noteq> []" for ys zs
  proof -
    have a_eq: "a = (takeWhile isspace a @ ys) @ zs" using that(1) takeWhile_dropWhile_id[of isspace a] by (simp add: lstrip_def)
    have "\<not> ci_prefix ''\<newline>\<newline>Question:'' (zs @ tail)"
    proof (cases "tail = []")
      case True
      then show ?thesis using no_marker_at_end[OF nca a_eq] by simp
    next
      case False
      then obtain t where t: "tail = ''\<newline>\<newline>Question:'' @ t" using tail by auto
      show ?thesis unfolding t by (rule no_early_marker[OF borderless_question nca a_eq that(2)])
    qed
    then show ?thesis using that(2) by (simp add: rmatch_lookahead del: ci_prefix.simps)
  qed
  have f2: "rmatch (?field lookahead) ('' '' @ a @ tail)
            = Some ('' '' @ takeWhile isspace a, [lstrip a, []], tail)"
    using rmatch_field[OF sp a _ la] early_a by simp
  let ?k1 = "lit ''\<newline>Answer:'' @ ?field lookahead"
  have k1: "rmatch ?k1 (''\<newline>Answer: '' @ a @ tail)
            = Some (''\<newline>Answer: '' @ takeWhile isspace a, [lstrip a, []], tail)"
    using f2 by (simp add: rmatch_lit ci_eq_def)
  have early_q: "rmatch ?k1 (zs @ ''\<newline>Answer: '' @ a @ tail) = None" if "lstrip q = ys @ zs" "zs \<noteq> []" for ys zs
  proof -
    have q_eq: "q = (takeWhile isspace q @ ys) @ zs" using that(1) takeWhile_dropWhile_id[of isspace q] by (simp add: lstrip_def)
    have "\<not> ci_prefix ''\<newline>Answer:'' (zs @ ''\<newline>Answer:'' @ ('' '' @ a @ tail))"
      by (rule no_early_marker[OF borderless_answer ncq q_eq that(2)])
    then show ?thesis by (simp add: rmatch_lit del: ci_prefix.simps)
  qed
  have f1: "rmatch (?field ?k1) ('' '' @ q @ (''\<newline>Answer: '' @ a @ tail))
            = Some ('' '' @ takeWhile isspace q,
                    [lstrip q, ''\<newline>Answer: '' @ takeWhile isspace a, lstrip a, []], tail)"
    using rmatch_field[OF sp q _ k1] early_q by simp
  have pat: "flashcard_pattern = lit ''Question:'' @ ?field ?k1"
    by (simp add: flashcard_pattern_def lookahead_def)
  show ?thesis unfolding pat using f1 by (simp add: rmatch_lit ci_eq_def)
qed

lemma flashcard_pattern_head:
  "\<not> ci_eq CHR ''Q'' d \<Longrightarrow> rmatch flashcard_pattern (d # ds) = None"
  by (simp add: flashcard_pattern_def lit_def)

lemma flashcard_pattern_Nil: "rmatch flashcard_pattern [] = None"
  by (simp add: flashcard_pattern_def lit_def)

lemma render_flashcards_Cons:
  "render_flashcards (b # bs) =
     render_block b @ (if bs = [] then [] else ''\<newline>\<newline>'' @ render_flashcards bs)"
  by (cases bs) simp_all

lemma render_flashcards_start: "\<exists>t. render_flashcards (b # bs) = ''Question:'' @ t"
  by (simp add: render_flashcards_Cons render_block_def)

lemma findall_render_flashcards:
  "list_all well_formed bs \<Longrightarrow>
   findall flashcard_pattern (render_flashcards bs) = map (\<lambda>b. [lstrip (fst b), lstrip (snd b)]) bs"
proof (induction bs)
  case Nil
  show ?case by (simp add: findall_Nil flashcard_pattern_Nil)
next
  case (Cons b bs)
  obtain q a where b: "b = (q, a)" by (cases b)
  from Cons.prems have wf: "well_formed (q, a)" and rest: "list_all well_formed bs"
    by (simp_all add: b)
  define tail where "tail = (if bs = [] then [] else ''\<newline>\<newline>'' @ render_flashcards bs)"
  have tail: "tail = [] \<or> (\<exists>t. tail = ''\<newline>\<newline>Question:'' @ t)"
  proof (cases bs)
    case Nil
    then show ?thesis by (simp add: tail_def)
  next
    case (Cons b' bs')
    with render_flashcards_start[of b' bs'] show ?thesis by (auto simp: tail_def)
  qed
  have rendered: "render_flashcards (b # bs) = ''Question: '' @ q @ ''\<newline>Answer: '' @ a @ tail"
    by (simp add: render_flashcards_Cons render_block_def b tail_def)
  have m: "rmatch flashcard_pattern (''Question: '' @ q @ ''\<newline>Answer: '' @ a @ tail)
         = Some (''Question: '' @ takeWhile isspace q,
                 [lstrip q, ''\<newline>Answer: '' @ takeWhile isspace a, lstrip a, []], tail)"
    by (rule flashcard_block_match[OF wf tail])
  have step: "findall flashcard_pattern (render_flashcards (b # bs))
              = [lstrip q, lstrip a] # findall flashcard_pattern tail"
    unfolding rendered using findall_match[OF m] by simp
  have "findall flashcard_pattern tail = findall flashcard_pattern (render_flashcards bs)"
  proof (cases "bs = []")
    case True
    then show ?thesis by (simp add: tail_def)
  next
    case False
    have nl: "\<not> ci_eq CHR ''Q'' CHR ''\<newline>''" by code_simp
    show ?thesis using False
      by (simp add: tail_def findall_skip flashcard_pattern_head nl)
  qed
  with step Cons.IH[OF rest] show ?case by (simp add: b)
qed

lemma extractFlashcards_render:
  assumes "list_all well_formed bs" and "bs \<noteq> []"
  shows "extractFlashcards (render_flashcards bs) = Items (map (\<lambda>b. (strip (fst b), strip (snd b))) bs)"
  using assms by (simp add: extractFlashcards_def findall_render_flashcards o_def)

subsection \<open>The flashcard pattern needs its \<open>Answer:\<close> line\<close>

lemma flashcard_pattern_split:
  "flashcard_pattern =
     (lit ''Question:'' @ [MaxRepeat Whitespace, GroupOpen, MinRepeat AnyChar, GroupClose]) @
     (lit ''\<newline>Answer:'' @ [MaxRepeat Whitespace, GroupOpen, MinRepeat AnyChar, GroupClose,
        Assert [lit ''\<newline>\<newline>Question:'', [AtEnd]]])"
  by (simp add: flashcard_pattern_def)

lemma flashcard_match_needs_marker:
  assumes "rmatch flashcard_pattern s = Some r"
  shows "ci_contains ''\<newline>Answer:'' s"
proof -
  let ?q = "lit ''\<newline>Answer:'' @ [MaxRepeat Whitespace, GroupOpen, MinRepeat AnyChar, GroupClose,
        Assert [lit ''\<newline>\<newline>Question:'', [AtEnd]]]"
  from assms obtain u v r' where s: "s = u @ v" and v: "rmatch ?q v = Some r'"
    using rmatch_append_reaches[of _ ?q s r] unfolding flashcard_pattern_split reaches_def by blast
  from v have "ci_prefix ''\<newline>Answer:'' v"
    by (simp add: rmatch_lit del: ci_prefix.simps split: if_splits)
  then show ?thesis unfolding s by (rule ci_contains_suffix)
qed

lemma findall_flashcards_no_marker:
  assumes "\<not> ci_contains ''\<newline>Answer:'' s"
  shows "findall flashcard_pattern s = []"
proof (rule findall_no_match)
  fix u v assume s: "s = u @ v"
  show "rmatch flashcard_pattern v = None"
  proof (rule ccontr)
    assume "rmatch flashcard_pattern v \<noteq> None"
    then obtain r where "rmatch flashcard_pattern v = Some r" by auto
    then have "ci_contains ''\<newline>Answer:'' v" by (rule flashcard_match_needs_marker)
    then have "ci_contains ''\<newline>Answer:'' s" unfolding s by (rule ci_contains_append)
    with assms show False by simp
  qed
qed

subsection \<open>The items of the quiz pattern\<close>

lemma quiz_item_of_ok:
  assumes "m ! 5 = [d]" and "answer_letter d"
  shows "quiz_item_ok (quiz_item_of m)"
proof -
  have "strip (m ! 5) = [d]" using assms by (simp add: strip_single answer_letter_not_space)
  then have "answer (quiz_item_of m) = upper [d]" by (simp add: quiz_item_of_def)
  moreover have "upper (upper [d]) = upper [d]"
    using upper_answer_letter[OF assms(2)] by simp
  moreover have "map fst (options (quiz_item_of m)) = [''A'', ''B'', ''C'', ''D'']"
    by (simp add: quiz_item_of_def)
  ultimately show ?thesis using upper_answer_letter[OF assms(2)]
    by (auto simp add: quiz_item_ok_def)
qed

lemma extractQuiz_items_ok:
  assumes "extractQuiz t = Items items" and "item \<in> set items"
  shows "quiz_item_ok item"
proof -
  have all: "\<forall>m \<in> set (findall quiz_pattern t). length m = 6 \<and> (\<exists>d. m ! 5 = [d] \<and> answer_letter d)"
    by (rule findall_all) (rule quiz_match_groups)
  from assms have "items = map quiz_item_of (findall quiz_pattern t)"
    by (simp add: extractQuiz_def Let_def split: if_splits)
  with assms(2) obtain m where "m \<in> set (findall quiz_pattern t)" "item = quiz_item_of m" by auto
  with all show ?thesis using quiz_item_of_ok by blast
qed

subsection \<open>The quiz pattern on a rendered text\<close>

lemma rmatch_answer_letter:
  assumes "answer_letter l"
  shows "rmatch [MaxRepeat Whitespace, GroupOpen, In (CharRange CHR ''A'' CHR ''D''), GroupClose]
           ('' '' @ l # tail)
         = Some ('' '', [[l], []], tail)"
proof -
  from assms consider "l = CHR ''A''" | "l = CHR ''B''" | "l = CHR ''C''" | "l = CHR ''D''"
    | "l = CHR ''a''" | "l = CHR ''b''" | "l = CHR ''c''" | "l = CHR ''d''"
    by (auto simp: answer_letter_def)
  then have c: "in_class (CharRange CHR ''A'' CHR ''D'') l"
    by cases (simp_all add: lower_char_def upper_char_def)
  have k: "rmatch [GroupOpen, In (CharRange CHR ''A'' CHR ''D''), GroupClose] (l # tail)
           = Some ([], [[l], []], tail)"
    using c by (simp del: in_class.simps)
  have sp: "list_all isspace '' ''" by (simp add: isspace_def)
  have hd: "l # tail = [] \<or> \<not> isspace (hd (l # tail))"
    using answer_letter_not_space[OF assms] by simp
  show ?thesis using rmatch_greedy_space[OF sp hd k] by simp
qed

lemma quiz_block_match:
  assumes wf: "well_formed_quiz b"
  shows "\<exists>cur s1 s2 s3 s4 s5.
           rmatch quiz_pattern (render_quiz_block b @ tail)
           = Some (cur, [lstrip (block_question b), s1, lstrip (option_a b), s2, lstrip (option_b b), s3,
                         lstrip (option_c b), s4, lstrip (option_d b), s5, [letter b], []], tail)"
proof -
  let ?field = "\<lambda>k. MaxRepeat Whitespace # GroupOpen # MinRepeat AnyChar # GroupClose # k"
  let ?k6 = "[MaxRepeat Whitespace, GroupOpen, In (CharRange CHR ''A'' CHR ''D''), GroupClose]"
  let ?k5 = "?field (lit ''\<newline>Answer:'' @ ?k6)"
  let ?k4 = "?field (lit ''\<newline>D)'' @ ?k5)"
  let ?k3 = "?field (lit ''\<newline>C)'' @ ?k4)"
  let ?k2 = "?field (lit ''\<newline>B)'' @ ?k3)"
  let ?k1 = "?field (lit ''\<newline>A)'' @ ?k2)"
  let ?t6 = "'' '' @ letter b # tail"
  let ?t5 = "'' '' @ option_d b @ ''\<newline>Answer:'' @ ?t6"
  let ?t4 = "'' '' @ option_c b @ ''\<newline>D)'' @ ?t5"
  let ?t3 = "'' '' @ option_b b @ ''\<newline>C)'' @ ?t4"
  let ?t2 = "'' '' @ option_a b @ ''\<newline>B)'' @ ?t3"
  let ?t1 = "'' '' @ block_question b @ ''\<newline>A)'' @ ?t2"
  have sp: "list_all isspace '' ''" by (simp add: isspace_def)
  from wf have l: "answer_letter (letter b)" by (simp add: well_formed_quiz_def)
  have m6: "rmatch ?k6 ?t6 = Some ('' '', [[letter b], []], tail)"
    by (rule rmatch_answer_letter[OF l])
  have m5: "rmatch ?k5 ?t5 = Some ('' '' @ takeWhile isspace (option_d b),
       [lstrip (option_d b), ''\<newline>Answer:'' @ '' '', [letter b], []], tail)"
    by (rule rmatch_field_lit[OF sp _ borderless_answer _ m6]) (use wf in \<open>simp_all add: well_formed_quiz_def\<close>)
  have m4: "rmatch ?k4 ?t4 = Some ('' '' @ takeWhile isspace (option_c b),
       [lstrip (option_c b), ''\<newline>D)'' @ '' '' @ takeWhile isspace (option_d b),
        lstrip (option_d b), ''\<newline>Answer:'' @ '' '', [letter b], []], tail)"
    by (rule rmatch_field_lit[OF sp _ borderless_options(4) _ m5]) (use wf in \<open>simp_all add: well_formed_quiz_def\<close>)
  have m3: "rmatch ?k3 ?t3 = Some ('' '' @ takeWhile isspace (option_b b),
       [lstrip (option_b b), ''\<newline>C)'' @ '' '' @ takeWhile isspace (option_c b),
        lstrip (option_c b), ''\<newline>D)'' @ '' '' @ takeWhile isspace (option_d b),
        lstrip (option_d b), ''\<newline>Answer:'' @ '' '', [letter b], []], tail)"
    by (rule rmatch_field_lit[OF sp _ borderless_options(3) _ m4]) (use wf in \<open>simp_all add: well_formed_quiz_def\<close>)
  have m2: "rmatch ?k2 ?t2 = Some ('' '' @ takeWhile isspace (option_a b),
       [lstrip (option_a b), ''\<newline>B)'' @ '' '' @ takeWhile isspace (option_b b),
        lstrip (option_b b), ''\<newline>C)'' @ '' '' @ takeWhile isspace (option_c b),
        lstrip (option_c b), ''\<newline>D)'' @ '' '' @ takeWhile isspace (option_d b),
        lstrip (option_d b), ''\<newline>Answer:'' @ '' '', [letter b], []], tail)"
    by (rule rmatch_field_lit[OF sp _ borderless_options(2) _ m3]) (use wf in \<open>simp_all add: well_formed_quiz_def\<close>)
  have m1: "rmatch ?k1 ?t1 = Some ('' '' @ takeWhile isspace (block_question b),
       [lstrip (block_question b), ''\<newline>A)'' @ '' '' @ takeWhile isspace (option_a b),
        lstrip (option_a b), ''\<newline>B)'' @ '' '' @ takeWhile isspace (option_b b),
        lstrip (option_b b), ''\<newline>C)'' @ '' '' @ takeWhile isspace (option_c b),
        lstrip (option_c b), ''\<newline>D)'' @ '' '' @ takeWhile isspace (option_d b),
        lstrip (option_d b), ''\<newline>Answer:'' @ '' '', [letter b], []], tail)"
    by (rule rmatch_field_lit[OF sp _ borderless_options(1) _ m2]) (use wf in \<open>simp_all add: well_formed_quiz_def\<close>)
  have pat: "quiz_pattern = lit ''Question:'' @ ?k1"
    by (simp add: quiz_pattern_def)
  have rendered: "render_quiz_block b @ tail = ''Question:'' @ ?t1"
    by (simp add: render_quiz_block_def)
  have "rmatch (lit ''Question:'' @ ?k1) (''Question:'' @ ?t1)
        = map_option (pushes ''Question:'') (rmatch ?k1 ?t1)"
    by (rule rmatch_lit_self)
  then show ?thesis unfolding pat rendered m1 by simp
qed

lemma quiz_pattern_split_C:
  "quiz_pattern =
     (lit ''Question:'' @ [MaxRepeat Whitespace, GroupOpen, MinRepeat AnyChar, GroupClose] @
      lit ''\<newline>A)'' @ [MaxRepeat Whitespace, GroupOpen, MinRepeat AnyChar, GroupClose] @
      lit ''\<newline>B)'' @ [MaxRepeat Whitespace, GroupOpen, MinRepeat AnyChar, GroupClose]) @
     (lit ''\<newline>C)'' @ [MaxRepeat Whitespace, GroupOpen, MinRepeat AnyChar, GroupClose] @
      lit ''\<newline>D)'' @ [MaxRepeat Whitespace, GroupOpen, MinRepeat AnyChar, GroupClose] @
      lit ''\<newline>Answer:'' @ [MaxRepeat Whitespace, GroupOpen, In (CharRange CHR ''A'' CHR ''D''),
        GroupClose])"
  by (simp add: quiz_pattern_def)

lemma quiz_match_needs_C:
  assumes "rmatch quiz_pattern s = Some r"
  shows "ci_contains ''\<newline>C)'' s"
proof -
  let ?q = "lit ''\<newline>C)'' @ [MaxRepeat Whitespace, GroupOpen, MinRepeat AnyChar, GroupClose] @
      lit ''\<newline>D)'' @ [MaxRepeat Whitespace, GroupOpen, MinRepeat AnyChar, GroupClose] @
      lit ''\<newline>Answer:'' @ [MaxRepeat Whitespace, GroupOpen, In (CharRange CHR ''A'' CHR ''D''),
        GroupClose]"
  from assms obtain u v r' where s: "s = u @ v" and v: "rmatch ?q v = Some r'"
    using rmatch_append_reaches[of _ ?q s r] unfolding quiz_pattern_split_C reaches_def by blast
  from v have "ci_prefix ''\<newline>C)'' v"
    by (simp add: rmatch_lit del: ci_prefix.simps split: if_splits)
  then show ?thesis unfolding s by (rule ci_contains_suffix)
qed

lemma findall_quiz_no_C:
  assumes "\<not> ci_contains ''\<newline>C)'' s"
  shows "findall quiz_pattern s = []"
proof (rule findall_no_match)
  fix u v assume s: "s = u @ v"
  show "rmatch quiz_pattern v = None"
  proof (rule ccontr)
    assume "rmatch quiz_pattern v \<noteq> None"
    then obtain r where "rmatch quiz_pattern v = Some r" by auto
    then have "ci_contains ''\<newline>C)'' v" by (rule quiz_match_needs_C)
    then have "ci_contains ''\<newline>C)'' s" unfolding s by (rule ci_contains_append)
    with assms show False by simp
  qed
qed

lemma quiz_pattern_head:
  "\<not> ci_eq CHR ''Q'' d \<Longrightarrow> rmatch quiz_pattern (d # ds) = None"
  by (simp add: quiz_pattern_def lit_def)

lemma render_quiz_Cons:
  "render_quiz (b # bs) =
     render_quiz_block b @ (if bs = [] then [] else ''\<newline>\<newline>'' @ render_quiz bs)"
  by (cases bs) simp_all

lemma quiz_item_of_groups:
  assumes "well_formed_quiz b"
  shows "quiz_item_of [lstrip (block_question b), lstrip (option_a b), lstrip (option_b b),
                        lstrip (option_c b), lstrip (option_d b), [letter b]] = item_of_block b"
proof -
  from assms have "answer_letter (letter b)" by (simp add: well_formed_quiz_def)
  then have "strip [letter b] = [letter b]" by (simp add: strip_single answer_letter_not_space)
  then show ?thesis by (simp add: quiz_item_of_def item_of_block_def upper_def)
qed

lemma findall_render_quiz:
  assumes trailing: "\<not> ci_contains ''\<newline>C)'' trailing"
  shows "list_all well_formed_quiz bs \<Longrightarrow>
         map quiz_item_of (findall quiz_pattern (render_quiz bs @ trailing)) = map item_of_block bs"
proof (induction bs)
  case Nil
  show ?case using trailing by (simp add: findall_quiz_no_C)
next
  case (Cons b bs)
  from Cons.prems have wf: "well_formed_quiz b" and rest: "list_all well_formed_quiz bs"
    by simp_all
  define tail where "tail = (if bs = [] then [] else ''\<newline>\<newline>'' @ render_quiz bs) @ trailing"
  have rendered: "render_quiz (b # bs) @ trailing = render_quiz_block b @ tail"
    by (simp add: render_quiz_Cons tail_def)
  from quiz_block_match[OF wf, of tail] obtain cur s1 s2 s3 s4 s5 where
    m: "rmatch quiz_pattern (render_quiz_block b @ tail)
        = Some (cur, [lstrip (block_question b), s1, lstrip (option_a b), s2, lstrip (option_b b), s3,
                      lstrip (option_c b), s4, lstrip (option_d b), s5, [letter b], []], tail)"
    by blast
  have len: "length tail < length (render_quiz_block b @ tail)"
    by (simp add: render_quiz_block_def)
  have step: "findall quiz_pattern (render_quiz (b # bs) @ trailing)
              = [lstrip (block_question b), lstrip (option_a b), lstrip (option_b b),
                 lstrip (option_c b), lstrip (option_d b), [letter b]] # findall quiz_pattern tail"
    unfolding rendered using findall_match[OF m len] by simp
  have "findall quiz_pattern tail = findall quiz_pattern (render_quiz bs @ trailing)"
  proof (cases "bs = []")
    case True
    then show ?thesis by (simp add: tail_def)
  next
    case False
    have nl: "\<not> ci_eq CHR ''Q'' CHR ''\<newline>''" by code_simp
    show ?thesis using False
      by (simp add: tail_def findall_skip quiz_pattern_head nl)
  qed
  with step Cons.IH[OF rest] quiz_item_of_groups[OF wf] show ?case by simp
qed

lemma extractQuiz_render:
  assumes "list_all well_formed_quiz bs" and "bs \<noteq> []" and "\<not> ci_contains ''\<newline>C)'' trailing"
  shows "extractQuiz (render_quiz bs @ trailing) = Items (map item_of_block bs)"
proof -
  have m: "map quiz_item_of (findall quiz_pattern (render_quiz bs @ trailing)) = map item_of_block bs"
    by (rule findall_render_quiz[OF assms(3) assms(1)])
  with assms(2) have "map quiz_item_of (findall quiz_pattern (render_quiz bs @ trailing)) \<noteq> []"
    by simp
  with m show ?thesis unfolding extractQuiz_def Let_def by simp
qed

subsection \<open>The gateway\<close>

text \<open>
  With a candidate, a response without content and without a block reason is always
  reported as stopped, under the name of its finish reason. So the program returns the
  message of the specification's outcome for every response but one of this kind whose
  finish reason is the normal one. The blocked message begins with a failure prefix, and
  \<open>generate_flashcards\<close> and \<open>generate_quiz\<close> return it without parsing it.
\<close>

lemma every_candidate_is_reported_as_stopped:
  assumes "generate_content prompt safety_settings = Inr r"
    and "parts r = []" and "block_reason_of r = None" and "candidates r = c # cs"
  shows "generate_with_gemini generate_content prompt sent
         = (Inr (''Content generation stopped. Reason: '' @ member_name (finish_reason c)),
            sent @ [prompt])"
  using assms
  by (simp add: generate_with_gemini_def block_reason_of_def member_ne_str_def
      split: option.splits)

lemma gateway_agrees_except_normal_stop:
  assumes "generate_content prompt safety_settings = Inr r"
    and "\<not> (parts r = [] \<and> block_reason_of r = None \<and>
            (\<exists>c cs. candidates r = c # cs \<and> member_name (finish_reason c) = ''STOP''))"
  shows "generate_with_gemini generate_content prompt sent
         = (Inr (message_of (gateway_outcome r)), sent @ [prompt])"
  using assms
  by (auto simp: generate_with_gemini_def gateway_outcome_def block_reason_of_def
      abnormal_stop_of_def member_ne_str_def split: option.splits list.splits)

lemma failure_prefix_blocked: "failure_prefix (''Content generation blocked. Reason: '' @ reason)"
  by (simp add: failure_prefix_def startswith_def)

lemma blocked_message_is_not_parsed:
  assumes "text' \<noteq> []" and "parts r = []" and "block_reason_of r = Some reason"
  shows "generate_content (flashcards_prompt text') safety_settings = Inr r \<Longrightarrow>
         generate_flashcards generate_content text' sent
         = (Inr (Str (''Content generation blocked. Reason: '' @ reason)),
            sent @ [flashcards_prompt text'])"
    and "generate_content (quiz_prompt text') safety_settings = Inr r \<Longrightarrow>
         generate_quiz generate_content text' sent
         = (Inr (Str (''Content generation blocked. Reason: '' @ reason)),
            sent @ [quiz_prompt text'])"
proof -
  have g: "generate_with_gemini generate_content p sent
           = (Inr (''Content generation blocked. Reason: '' @ reason), sent @ [p])"
    if "generate_content p safety_settings = Inr r" for p
    using that assms(2,3)
    by (simp add: generate_with_gemini_def block_reason_of_def split: option.splits)
  show "generate_content (flashcards_prompt text') safety_settings = Inr r \<Longrightarrow>
         generate_flashcards generate_content text' sent
         = (Inr (Str (''Content generation blocked. Reason: '' @ reason)),
            sent @ [flashcards_prompt text'])"
    using assms(1) by (simp add: generate_flashcards_def g failure_prefix_blocked del: append.simps)
  show "generate_content (quiz_prompt text') safety_settings = Inr r \<Longrightarrow>
         generate_quiz generate_content text' sent
         = (Inr (Str (''Content generation blocked. Reason: '' @ reason)),
            sent @ [quiz_prompt text'])"
    using assms(1) by (simp add: generate_quiz_def g failure_prefix_blocked del: append.simps)
qed

section \<open>The properties\<close>

subsection \<open>Flashcards of well-formed blocks\<close>

lemma example_flashcards:
  "extractFlashcards ''Question: What is 2+2?\<newline>Answer: 4\<newline>\<newline>Question: Capital of France?\<newline>Answer: Paris''
   = Items [(''What is 2+2?'', ''4''), (''Capital of France?'', ''Paris'')]"
  by code_simp

lemma well_formed_strip:
  "well_formed b \<Longrightarrow> strip (fst b) \<noteq> [] \<and> strip (snd b) \<noteq> []"
  by (simp add: well_formed_def)

lemma well_formed_examples:
  "list_all well_formed [(''  What is\<newline>2+2? '', ''4\<newline>\<newline>''), (''Capital of France?'', ''Paris'')]"
  "list_all well_formed [(''Who wrote Hamlet?'', '' William\<newline>Shakespeare''), (''Answer: yes or no?'', ''Question: which?'')]"
  by code_simp+

lemma strip_examples:
  "strip ''  What is\<newline>2+2? '' = ''What is\<newline>2+2?''" "strip ''4\<newline>\<newline>'' = ''4''"
  "strip ''Capital of France?'' = ''Capital of France?''" "strip ''Paris'' = ''Paris''"
  "strip ''Who wrote Hamlet?'' = ''Who wrote Hamlet?''"
  "strip '' William\<newline>Shakespeare'' = ''William\<newline>Shakespeare''"
  "strip ''Answer: yes or no?'' = ''Answer: yes or no?''"
  "strip ''Question: which?'' = ''Question: which?''"
  by code_simp+

text \<open>
  C1: for a text that consists of N well-formed flashcard blocks (N at least 1; the
  blocks rendered as \<open>Question: q\<close>, newline, \<open>Answer: a\<close> and separated by a blank line),
  the parsing step of \<open>generate_flashcards\<close> returns a list of exactly N flashcards, in
  the order of the blocks; the i-th flashcard is the stripped question and the stripped
  answer of the i-th block, both non-empty and without whitespace at either end. The
  input of the specification's example yields exactly its two pairs.

  Further blank lines between two blocks are covered: they are trailing newlines of the
  answer before them, which \<open>strip\<close> removes.
\<close>

theorem flashcards_of_well_formed_blocks:
  "(list_all well_formed bs \<and> bs \<noteq> [] \<longrightarrow>
      (\<exists>items. extractFlashcards (render_flashcards bs) = Items items \<and>
         length items = length bs \<and>
         (\<forall>i < length bs.
            items ! i = (strip (fst (bs ! i)), strip (snd (bs ! i))) \<and>
            fst (items ! i) \<noteq> [] \<and> snd (items ! i) \<noteq> [] \<and>
            strip (fst (items ! i)) = fst (items ! i) \<and>
            strip (snd (items ! i)) = snd (items ! i)))) \<and>
   extractFlashcards ''Question: What is 2+2?\<newline>Answer: 4\<newline>\<newline>Question: Capital of France?\<newline>Answer: Paris''
   = Items [(''What is 2+2?'', ''4''), (''Capital of France?'', ''Paris'')]"
proof (intro conjI impI)
  assume a: "list_all well_formed bs \<and> bs \<noteq> []"
  let ?items = "map (\<lambda>b. (strip (fst b), strip (snd b))) bs"
  have e: "extractFlashcards (render_flashcards bs) = Items ?items"
    using a by (simp add: extractFlashcards_render)
  have "\<forall>i < length bs. well_formed (bs ! i)"
    using a by (simp add: list_all_length)
  then have "\<forall>i < length bs.
            ?items ! i = (strip (fst (bs ! i)), strip (snd (bs ! i))) \<and>
            fst (?items ! i) \<noteq> [] \<and> snd (?items ! i) \<noteq> [] \<and>
            strip (fst (?items ! i)) = fst (?items ! i) \<and>
            strip (snd (?items ! i)) = snd (?items ! i)"
    by (simp add: well_formed_strip)
  with e show "\<exists>items. extractFlashcards (render_flashcards bs) = Items items \<and>
         length items = length bs \<and>
         (\<forall>i < length bs.
            items ! i = (strip (fst (bs ! i)), strip (snd (bs ! i))) \<and>
            fst (items ! i) \<noteq> [] \<and> snd (items ! i) \<noteq> [] \<and>
            strip (fst (items ! i)) = fst (items ! i) \<and>
            strip (snd (items ! i)) = snd (items ! i))"
    by (intro exI[of _ ?items]) simp
next
  show "extractFlashcards ''Question: What is 2+2?\<newline>Answer: 4\<newline>\<newline>Question: Capital of France?\<newline>Answer: Paris''
   = Items [(''What is 2+2?'', ''4''), (''Capital of France?'', ''Paris'')]"
    by (rule example_flashcards)
qed

text \<open>
  Two blocks, the first with a question of two lines and whitespace around it, and
  three blank lines between the blocks.
\<close>

theorem flashcards_of_well_formed_blocks_witness:
  "list_all well_formed [(''  What is\<newline>2+2? '', ''4\<newline>\<newline>''), (''Capital of France?'', ''Paris'')] \<and>
   (\<exists>items.
      extractFlashcards
        ''Question:   What is\<newline>2+2? \<newline>Answer: 4\<newline>\<newline>\<newline>\<newline>Question: Capital of France?\<newline>Answer: Paris''
      = Items items \<and> length items = 2 \<and>
      items ! 0 = (''What is\<newline>2+2?'', ''4'') \<and> items ! 1 = (''Capital of France?'', ''Paris''))"
proof -
  let ?bs = "[(''  What is\<newline>2+2? '', ''4\<newline>\<newline>''), (''Capital of France?'', ''Paris'')]"
  have wf: "list_all well_formed ?bs" by (rule well_formed_examples)
  from flashcards_of_well_formed_blocks[of ?bs] wf
  obtain items where i: "extractFlashcards (render_flashcards ?bs) = Items items"
    "length items = length ?bs"
    "\<forall>i < length ?bs. items ! i = (strip (fst (?bs ! i)), strip (snd (?bs ! i)))"
    by auto
  from i(3) have "items ! 0 = (''What is\<newline>2+2?'', ''4'')"
    "items ! 1 = (''Capital of France?'', ''Paris'')"
    by (simp_all add: strip_examples)
  moreover have "render_flashcards ?bs =
    ''Question:   What is\<newline>2+2? \<newline>Answer: 4\<newline>\<newline>\<newline>\<newline>Question: Capital of France?\<newline>Answer: Paris''"
    by (simp add: render_block_def)
  ultimately show ?thesis using wf i(1,2) by (intro conjI exI[of _ items]) simp_all
qed

subsection \<open>A quiz block without its C) line\<close>

text \<open>
  C2: a quiz block that lacks its \<open>C)\<close> line should be left out of the result and the
  well-formed blocks of the same text should still be extracted. The program does not do
  this when a well-formed block follows the incomplete one: the lazy group after \<open>B)\<close>
  runs on, across the blank line, to the \<open>C)\<close> line of the next block. On the text below
  the result is one item, with the question of the incomplete block, an option B that
  holds the rest of the incomplete block and the beginning of the next one, and the
  options C and D and the answer of the next block; the well-formed block is not an item
  of the result. On its own, the well-formed block is extracted as it stands.
\<close>

theorem quiz_block_missing_C_is_merged:
  "extractQuiz ''Question: Q1\<newline>A) a1\<newline>B) b1\<newline>D) d1\<newline>Answer: A\<newline>\<newline>Question: Q2\<newline>A) a2\<newline>B) b2\<newline>C) c2\<newline>D) d2\<newline>Answer: B''
   = Items [\<lparr>question = ''Q1'',
             options = [(''A'', ''a1''),
                        (''B'', ''b1\<newline>D) d1\<newline>Answer: A\<newline>\<newline>Question: Q2\<newline>A) a2\<newline>B) b2''),
                        (''C'', ''c2''), (''D'', ''d2'')],
             answer = ''B''\<rparr>] \<and>
   extractQuiz ''Question: Q2\<newline>A) a2\<newline>B) b2\<newline>C) c2\<newline>D) d2\<newline>Answer: B''
   = Items [\<lparr>question = ''Q2'',
             options = [(''A'', ''a2''), (''B'', ''b2''), (''C'', ''c2''), (''D'', ''d2'')],
             answer = ''B''\<rparr>]"
  by code_simp

text \<open>
  Where the claim does hold: when the text after the well-formed blocks has no line
  that begins with \<open>C)\<close>, as when the incomplete block is the last one, the result is
  exactly the items of the well-formed blocks.
\<close>

lemma quiz_incomplete_block_last:
  assumes "list_all well_formed_quiz bs" and "bs \<noteq> []"
    and "\<not> ci_contains ''\<newline>C)'' (''\<newline>\<newline>'' @ incomplete)"
  shows "extractQuiz (render_quiz bs @ ''\<newline>\<newline>'' @ incomplete) = Items (map item_of_block bs)"
  by (rule extractQuiz_render[OF assms])

subsection \<open>No match: Empty or Unparsed\<close>

lemma findall_short_text:
  "findall flashcard_pattern ''  '' = []" "findall quiz_pattern ''  '' = []"
  "findall flashcard_pattern ''hello'' = []" "findall quiz_pattern ''hello'' = []"
  by code_simp+

lemma strip_short_text: "strip ''  '' = []" "strip ''hello'' = ''hello''"
  by code_simp+

text \<open>
  C3: when the pattern finds no match in a text, the flashcard extractor and the quiz
  extractor both return the fixed message of an empty response if the text is empty or
  whitespace only, and otherwise the message that carries the text itself, unchanged,
  after the words \<open>Raw response:\<close> and a newline.
\<close>

theorem zero_matches_empty_or_unparsed:
  "(findall flashcard_pattern t = [] \<longrightarrow>
      extractFlashcards t =
        (if strip t = []
         then Str ''The model did not generate any flashcards or the response was empty.''
         else Str (''Could not parse flashcards from the response. Raw response:\<newline>'' @ t))) \<and>
   (findall quiz_pattern t = [] \<longrightarrow>
      extractQuiz t =
        (if strip t = []
         then Str ''The model did not generate any quiz questions or the response was empty.''
         else Str (''Could not parse quiz questions from the response. Raw response:\<newline>'' @ t)))"
  by (simp add: extractFlashcards_def extractQuiz_def del: append.simps)

theorem zero_matches_empty_or_unparsed_witness:
  "extractFlashcards ''  '' = Str ''The model did not generate any flashcards or the response was empty.'' \<and>
   extractQuiz ''  '' = Str ''The model did not generate any quiz questions or the response was empty.'' \<and>
   extractFlashcards ''hello'' = Str ''Could not parse flashcards from the response. Raw response:\<newline>hello'' \<and>
   extractQuiz ''hello'' = Str ''Could not parse quiz questions from the response. Raw response:\<newline>hello''"
  using zero_matches_empty_or_unparsed[of "''  ''"] zero_matches_empty_or_unparsed[of "''hello''"]
    findall_short_text strip_short_text
  by simp

subsection \<open>The invariant of the quiz items\<close>

lemma lower_case_quiz:
  "extractQuiz ''question: Largest planet?\<newline>a) Mars\<newline>b) Jupiter\<newline>c) Venus\<newline>d) Earth\<newline>answer: b''
   = Items [\<lparr>question = ''Largest planet?'',
             options = [(''A'', ''Mars''), (''B'', ''Jupiter''), (''C'', ''Venus''), (''D'', ''Earth'')],
             answer = ''B''\<rparr>]"
  by code_simp

lemma planet_block_well_formed: "well_formed_quiz planet_block"
  by code_simp

text \<open>
  C4: on every text, every quiz item that the parsing step of \<open>generate_quiz\<close> returns
  has options keyed by exactly A, B, C and D, in this order, an answer that is one of
  these four keys, and an answer in upper case. Every well-formed block that ends in
  \<open>Answer: B\<close> yields exactly one item, and its answer is \<open>B\<close>.
\<close>

theorem quiz_items_keep_invariant:
  "(extractQuiz t = Items items \<and> item \<in> set items \<longrightarrow>
      map fst (options item) = [''A'', ''B'', ''C'', ''D''] \<and>
      answer item \<in> set (map fst (options item)) \<and>
      upper (answer item) = answer item) \<and>
   (well_formed_quiz b \<and> letter b = CHR ''B'' \<longrightarrow>
      (\<exists>item. extractQuiz (render_quiz_block b) = Items [item] \<and> answer item = ''B''))"
proof (rule conjI)
  show "extractQuiz t = Items items \<and> item \<in> set items \<longrightarrow>
      map fst (options item) = [''A'', ''B'', ''C'', ''D''] \<and>
      answer item \<in> set (map fst (options item)) \<and>
      upper (answer item) = answer item"
  proof (rule impI)
    assume "extractQuiz t = Items items \<and> item \<in> set items"
    then have "quiz_item_ok item" using extractQuiz_items_ok[of t items item] by simp
    then show "map fst (options item) = [''A'', ''B'', ''C'', ''D''] \<and>
        answer item \<in> set (map fst (options item)) \<and>
        upper (answer item) = answer item"
      unfolding quiz_item_ok_def .
  qed
next
  show "well_formed_quiz b \<and> letter b = CHR ''B'' \<longrightarrow>
      (\<exists>item. extractQuiz (render_quiz_block b) = Items [item] \<and> answer item = ''B'')"
  proof (rule impI)
    assume a: "well_formed_quiz b \<and> letter b = CHR ''B''"
    have "extractQuiz (render_quiz [b] @ []) = Items (map item_of_block [b])"
      by (rule extractQuiz_render) (use a in simp_all)
    then have "extractQuiz (render_quiz_block b) = Items [item_of_block b]" by simp
    moreover have "answer (item_of_block b) = ''B''"
      using a by (simp add: item_of_block_def upper_char_def)
    ultimately show "\<exists>item. extractQuiz (render_quiz_block b) = Items [item] \<and> answer item = ''B''"
      by blast
  qed
qed

text \<open>
  A block written in lower case, whose answer \<open>b\<close> becomes \<open>B\<close>, and the same block in
  the letter case of the grammar.
\<close>

theorem quiz_items_keep_invariant_witness:
  "extractQuiz ''question: Largest planet?\<newline>a) Mars\<newline>b) Jupiter\<newline>c) Venus\<newline>d) Earth\<newline>answer: b''
   = Items [\<lparr>question = ''Largest planet?'',
             options = [(''A'', ''Mars''), (''B'', ''Jupiter''), (''C'', ''Venus''), (''D'', ''Earth'')],
             answer = ''B''\<rparr>] \<and>
   upper ''B'' = ''B'' \<and>
   well_formed_quiz planet_block \<and>
   (\<exists>item. extractQuiz ''Question: Largest planet?\<newline>A) Mars\<newline>B) Jupiter\<newline>C) Venus\<newline>D) Earth\<newline>Answer: B''
           = Items [item] \<and> answer item = ''B'')"
proof -
  let ?item = "\<lparr>question = ''Largest planet?'',
             options = [(''A'', ''Mars''), (''B'', ''Jupiter''), (''C'', ''Venus''), (''D'', ''Earth'')],
             answer = ''B''\<rparr>"
  note inst = quiz_items_keep_invariant[of
      "''question: Largest planet?\<newline>a) Mars\<newline>b) Jupiter\<newline>c) Venus\<newline>d) Earth\<newline>answer: b''"
      "[?item]" ?item planet_block]
  have r: "render_quiz_block planet_block
           = ''Question: Largest planet?\<newline>A) Mars\<newline>B) Jupiter\<newline>C) Venus\<newline>D) Earth\<newline>Answer: B''"
    by (simp add: render_quiz_block_def planet_block_def)
  have l: "letter planet_block = CHR ''B''" by (simp add: planet_block_def)
  from inst lower_case_quiz have "upper ''B'' = ''B''" by simp
  moreover from inst planet_block_well_formed l r
  have "\<exists>item. extractQuiz ''Question: Largest planet?\<newline>A) Mars\<newline>B) Jupiter\<newline>C) Venus\<newline>D) Earth\<newline>Answer: B''
           = Items [item] \<and> answer item = ''B''" by simp
  ultimately show ?thesis using lower_case_quiz planet_block_well_formed by blast
qed

subsection \<open>Round trip of the flashcards\<close>

text \<open>
  The round trip does not hold for every sequence of flashcards. After a blank
  question the whitespace of the pattern takes the newline before \<open>Answer:\<close>, and the
  first group runs on to the \<open>Answer:\<close> line of the next block: two flashcards come back
  as one. A question that holds a line beginning with \<open>Answer:\<close> is cut at that line.
  The empty sequence renders to the empty text, whose outcome is the message of an empty
  response and not an empty list.
\<close>

theorem flashcards_round_trip_counterexample:
  "extractFlashcards (render_flashcards [([], ''x''), (''Q2'', ''A2'')])
     = Items [(''Answer: x\<newline>\<newline>Question: Q2'', ''A2'')] \<and>
   extractFlashcards (render_flashcards [([], ''x''), (''Q2'', ''A2'')])
     \<noteq> Items [([], ''x''), (''Q2'', ''A2'')] \<and>
   extractFlashcards (render_flashcards [(''a\<newline>Answer: b'', ''c'')])
     = Items [(''a'', ''b\<newline>Answer: c'')] \<and>
   extractFlashcards (render_flashcards [(''a\<newline>Answer: b'', ''c'')])
     \<noteq> Items [(''a\<newline>Answer: b'', ''c'')] \<and>
   extractFlashcards (render_flashcards [])
     = Str ''The model did not generate any flashcards or the response was empty.''"
  by code_simp

text \<open>
  C5, as amended: rendering a non-empty sequence of well-formed flashcards (question
  and answer not blank, no line beginning with \<open>Answer:\<close> inside a question, no blank
  line followed by \<open>Question:\<close> inside an answer) in the expected grammar and parsing the
  text gives the same pairs back, in the same order, each question and answer stripped.
\<close>

theorem flashcards_round_trip:
  "list_all well_formed bs \<Longrightarrow> bs \<noteq> [] \<Longrightarrow>
   extractFlashcards (render_flashcards bs) = Items (map (\<lambda>(q, a). (strip q, strip a)) bs)"
  by (simp add: extractFlashcards_render case_prod_beta)

text \<open>
  Two flashcards whose texts hold the words \<open>Answer:\<close> and \<open>Question:\<close> where they are
  not markers, and an answer of two lines.
\<close>

theorem flashcards_round_trip_witness:
  "extractFlashcards
     (render_flashcards [(''Who wrote Hamlet?'', '' William\<newline>Shakespeare''),
                         (''Answer: yes or no?'', ''Question: which?'')])
   = Items [(''Who wrote Hamlet?'', ''William\<newline>Shakespeare''), (''Answer: yes or no?'', ''Question: which?'')]"
  using flashcards_round_trip[of "[(''Who wrote Hamlet?'', '' William\<newline>Shakespeare''),
                                   (''Answer: yes or no?'', ''Question: which?'')]"]
    well_formed_examples(2)
  by (simp add: strip_examples)

subsection \<open>The gateway classifies a response\<close>

text \<open>
  C6: a response without content should be classified Blocked when a block reason is
  present, otherwise Stopped when the generation finished for a reason that is not the
  normal one, otherwise Empty. The program does not do this for a response without
  content and without a block reason whose candidate finished for the normal reason
  \<open>STOP\<close>: its test \<open>finish_reason != 'STOP'\<close> compares a member of an enumeration with a
  \<open>str\<close> and is always true. The specification's outcome for this response is Empty, with
  the message of an empty response; the program returns the stopped message with the
  reason \<open>STOP\<close>.
\<close>

theorem normal_stop_reported_as_stopped:
  "gateway_outcome normal_stop = Empty \<and>
   message_of (gateway_outcome normal_stop) = ''Error: Received an empty response from the API.'' \<and>
   generate_with_gemini normal_stop_service ''p'' []
   = (Inr ''Content generation stopped. Reason: STOP'', [''p''])"
  by (simp add: gateway_outcome_def block_reason_of_def abnormal_stop_of_def normal_stop_def
      normal_stop_service_def generate_with_gemini_def member_ne_str_def)

subsection \<open>An exception becomes a message\<close>

lemma base_exception_propagates:
  "generate_content prompt safety_settings = Inl (BaseOnly b) \<Longrightarrow>
   generate_with_gemini generate_content prompt sent = (Inl (BaseOnly b), sent @ [prompt])"
  by (simp add: generate_with_gemini_def)

text \<open>
  C7: when an \<open>Exception\<close> is raised in the \<open>try\<close> block, \<open>generate_with_gemini\<close>
  returns the message \<open>An error occurred during generation: \<close> followed by the text of
  the exception, unchanged; the exception does not propagate (the value is an \<open>Inr\<close>).
\<close>

theorem exception_becomes_message:
  "generate_content prompt safety_settings = Inl (Exception message) \<Longrightarrow>
   generate_with_gemini generate_content prompt sent
   = (Inr (''An error occurred during generation: '' @ message), sent @ [prompt])"
  by (simp add: generate_with_gemini_def)

theorem exception_becomes_message_witness:
  "generate_with_gemini failing_service ''p'' []
   = (Inr ''An error occurred during generation: 503 Service Unavailable'', [''p''])"
  using exception_becomes_message[of failing_service "''p''" "''503 Service Unavailable''" "[]"]
  by (simp add: failing_service_def)

subsection \<open>Validation before the call\<close>

text \<open>
  C8: with an empty source text, each of the four operations returns its fixed
  message and sends nothing to the service (the list of prompts sent is unchanged), and
  so does \<open>generate_answer\<close> with a source text and an empty question. This holds for
  every service, also for one whose call would raise.
\<close>

theorem preflight_validation:
  "generate_summary generate_content [] sent = (Inr ''Please provide some text to summarize.'', sent) \<and>
   generate_flashcards generate_content [] sent
     = (Inr (Str ''Please provide some text to generate flashcards from.''), sent) \<and>
   generate_quiz generate_content [] sent
     = (Inr (Str ''Please provide some text to generate a quiz from.''), sent) \<and>
   generate_answer generate_content [] question' sent = (Inr ''Please provide study material first.'', sent) \<and>
   generate_answer generate_content (c # context') [] sent = (Inr ''Please enter a question.'', sent)"
  by (simp add: generate_summary_def generate_flashcards_def generate_quiz_def generate_answer_def)

subsection \<open>A text with a failure prefix is not parsed\<close>

lemma echo_reply:
  "generate_with_gemini (echo_service reply) prompt sent = (Inr reply, sent @ [prompt])"
  by (simp add: generate_with_gemini_def echo_service_def)

lemma blocks_after_prefix:
  "failure_prefix ''Error: Question: Q\<newline>Answer: A''"
  "extractFlashcards ''Error: Question: Q\<newline>Answer: A'' = Items [(''Q'', ''A'')]"
  "failure_prefix ''Error: Question: Q\<newline>A) 1\<newline>B) 2\<newline>C) 3\<newline>D) 4\<newline>Answer: C''"
  "extractQuiz ''Error: Question: Q\<newline>A) 1\<newline>B) 2\<newline>C) 3\<newline>D) 4\<newline>Answer: C'' =
     Items [\<lparr>question = ''Q'', options = [(''A'', ''1''), (''B'', ''2''), (''C'', ''3''), (''D'', ''4'')],
             answer = ''C''\<rparr>]"
  by code_simp+

text \<open>
  C9: when the text that the gateway returns begins with \<open>An error occurred\<close>,
  \<open>Content generation\<close> or \<open>Error:\<close>, \<open>generate_flashcards\<close> and \<open>generate_quiz\<close> return
  this text, unchanged, as a \<open>str\<close>; the pattern is not applied to it.
\<close>

theorem failure_prefix_returned_unparsed:
  "text' \<noteq> [] \<Longrightarrow> failure_prefix reply \<Longrightarrow>
   (generate_with_gemini generate_content (flashcards_prompt text') sent = (Inr reply, sent') \<longrightarrow>
      generate_flashcards generate_content text' sent = (Inr (Str reply), sent')) \<and>
   (generate_with_gemini generate_content (quiz_prompt text') sent = (Inr reply, sent') \<longrightarrow>
      generate_quiz generate_content text' sent = (Inr (Str reply), sent'))"
  by (simp add: generate_flashcards_def generate_quiz_def)

text \<open>
  Texts that begin with \<open>Error:\<close> and go on with a well-formed block: the parsing step
  would find the block, the operation returns the text.
\<close>

theorem failure_prefix_returned_unparsed_witness:
  "generate_flashcards (echo_service ''Error: Question: Q\<newline>Answer: A'') ''notes'' []
     = (Inr (Str ''Error: Question: Q\<newline>Answer: A''), [flashcards_prompt ''notes'']) \<and>
   extractFlashcards ''Error: Question: Q\<newline>Answer: A'' = Items [(''Q'', ''A'')] \<and>
   generate_quiz (echo_service ''Error: Question: Q\<newline>A) 1\<newline>B) 2\<newline>C) 3\<newline>D) 4\<newline>Answer: C'') ''notes'' []
     = (Inr (Str ''Error: Question: Q\<newline>A) 1\<newline>B) 2\<newline>C) 3\<newline>D) 4\<newline>Answer: C''), [quiz_prompt ''notes''])"
  using
    failure_prefix_returned_unparsed[where text' = "''notes''" and reply = "''Error: Question: Q\<newline>Answer: A''"
      and generate_content = "echo_service ''Error: Question: Q\<newline>Answer: A''" and sent = "[]"
      and sent' = "[flashcards_prompt ''notes'']"]
    failure_prefix_returned_unparsed[where text' = "''notes''"
      and reply = "''Error: Question: Q\<newline>A) 1\<newline>B) 2\<newline>C) 3\<newline>D) 4\<newline>Answer: C''"
      and generate_content = "echo_service ''Error: Question: Q\<newline>A) 1\<newline>B) 2\<newline>C) 3\<newline>D) 4\<newline>Answer: C''"
      and sent = "[]" and sent' = "[quiz_prompt ''notes'']"]
    blocks_after_prefix echo_reply
  by simp

subsection \<open>An Answer: marker on the line of its question\<close>

lemma same_line_example:
  "\<not> ci_contains ''\<newline>Answer:'' ''Question: Q Answer: A''"
  "strip ''Question: Q Answer: A'' \<noteq> []"
  "rmatch flashcard_pattern ''Question: Q\<newline>answer: A'' \<noteq> None"
  by code_simp+

text \<open>
  C10: the flashcard pattern matches only where an \<open>Answer:\<close> (in any letter case)
  stands right after a newline: a text on which the pattern matches holds such a marker.
  So for every text that is not blank and in which no \<open>Answer:\<close> stands right after a
  newline, as when the marker stands on the line of its \<open>Question:\<close>, the pattern finds
  no match and the result is the message that carries the text.
\<close>

theorem same_line_answer_is_unparsed:
  "(rmatch flashcard_pattern s \<noteq> None \<longrightarrow> ci_contains ''\<newline>Answer:'' s) \<and>
   (\<not> ci_contains ''\<newline>Answer:'' t \<and> strip t \<noteq> [] \<longrightarrow>
      findall flashcard_pattern t = [] \<and>
      extractFlashcards t = Str (''Could not parse flashcards from the response. Raw response:\<newline>'' @ t))"
proof (rule conjI)
  show "rmatch flashcard_pattern s \<noteq> None \<longrightarrow> ci_contains ''\<newline>Answer:'' s"
    using flashcard_match_needs_marker[of s] by auto
next
  show "\<not> ci_contains ''\<newline>Answer:'' t \<and> strip t \<noteq> [] \<longrightarrow>
      findall flashcard_pattern t = [] \<and>
      extractFlashcards t = Str (''Could not parse flashcards from the response. Raw response:\<newline>'' @ t)"
    by (simp add: findall_flashcards_no_marker extractFlashcards_def del: append.simps)
qed

text \<open>
  A match on a text with \<open>answer:\<close> on a line of its own, and no match on the text
  \<open>Question: Q Answer: A\<close>.
\<close>

theorem same_line_answer_is_unparsed_witness:
  "rmatch flashcard_pattern ''Question: Q\<newline>answer: A'' \<noteq> None \<and>
   ci_contains ''\<newline>Answer:'' ''Question: Q\<newline>answer: A'' \<and>
   findall flashcard_pattern ''Question: Q Answer: A'' = [] \<and>
   extractFlashcards ''Question: Q Answer: A''
   = Str ''Could not parse flashcards from the response. Raw response:\<newline>Question: Q Answer: A''"
  using same_line_answer_is_unparsed[of "''Question: Q\<newline>answer: A''" "''Question: Q Answer: A''"]
    same_line_example
  by simp

end
